theory Spec2Isabelle
  imports Main "HOL-Library.AList" "HOL-Library.Multiset"
begin

section \<open>Byte strings\<close>

text \<open>
  A Go \<^verbatim>\<open>string\<close> is a sequence of bytes, here a \<^typ>\<open>string\<close>. The functions of the Go
  package \<^verbatim>\<open>strings\<close> that the proxy calls are written out with the results the package
  documents; a search that the package answers with \<^verbatim>\<open>-1\<close> answers \<^term>\<open>None\<close>.
\<close>

definition HasPrefix :: "string \<Rightarrow> string \<Rightarrow> bool" where
  "HasPrefix s p = (take (length p) s = p)"

definition HasSuffix :: "string \<Rightarrow> string \<Rightarrow> bool" where
  "HasSuffix s p = (length p \<le> length s \<and> drop (length s - length p) s = p)"

definition TrimPrefix :: "string \<Rightarrow> string \<Rightarrow> string" where
  "TrimPrefix s p = (if HasPrefix s p then drop (length p) s else s)"

definition TrimSuffix :: "string \<Rightarrow> string \<Rightarrow> string" where
  "TrimSuffix s p = (if HasSuffix s p then take (length s - length p) s else s)"

fun Index :: "string \<Rightarrow> string \<Rightarrow> nat option" where
  "Index [] substr = (if substr = [] then Some 0 else None)"
| "Index (c # cs) substr =
     (if HasPrefix (c # cs) substr then Some 0 else map_option Suc (Index cs substr))"

definition Contains :: "string \<Rightarrow> string \<Rightarrow> bool" where
  "Contains s substr = (Index s substr \<noteq> None)"

section \<open>Environment expansion (headers.go, expandEnvVars)\<close>

text \<open>
  The process environment is a partial map from names to values; \<^verbatim>\<open>os.Getenv\<close> answers the
  empty string for a name that is not set.
\<close>

type_synonym Env = "string \<rightharpoonup> string"

definition Getenv :: "Env \<Rightarrow> string \<Rightarrow> string" where
  "Getenv env name = (case env name of None \<Rightarrow> [] | Some v \<Rightarrow> v)"

lemma Index_bound: "Index s sub = Some i \<Longrightarrow> i + length sub \<le> length s"
proof (induction s arbitrary: i)
  case Nil
  then show ?case by (simp split: if_splits)
next
  case (Cons c cs)
  show ?case
  proof (cases "HasPrefix (c # cs) sub")
    case True
    then have "length (take (length sub) (c # cs)) = length sub"
      unfolding HasPrefix_def by simp
    then have "length sub \<le> length (c # cs)"
      by (simp del: take_Suc_Cons)
    with True Cons.prems show ?thesis by simp
  next
    case False
    with Cons.prems obtain j where "Index cs sub = Some j" "i = Suc j" by auto
    with Cons.IH show ?thesis by simp
  qed
qed

text \<open>
  The loop of \<^verbatim>\<open>expandEnvVars\<close>, with its two variables \<^verbatim>\<open>expanded\<close> and \<^verbatim>\<open>start\<close>. Each
  round looks for \<^verbatim>\<open>${\<close> from \<^verbatim>\<open>start\<close> on, then for \<^verbatim>\<open>}\<close> from there on, splices the value
  in and moves \<^verbatim>\<open>start\<close> behind the value. The part of \<^verbatim>\<open>expanded\<close> behind \<^verbatim>\<open>start\<close> gets
  shorter in every round, which is why the loop ends.
\<close>

function expandEnvVars_loop :: "Env \<Rightarrow> string \<Rightarrow> nat \<Rightarrow> string" where
  "expandEnvVars_loop env expanded start =
     (case Index (drop start expanded) ''${'' of
        None \<Rightarrow> expanded
      | Some i \<Rightarrow>
          (let idx = i + start in
           case Index (drop idx expanded) ''}'' of
             None \<Rightarrow> expanded
           | Some e \<Rightarrow>
               (let endIdx = e + idx;
                    varName = take (endIdx - (idx + 2)) (drop (idx + 2) expanded);
                    varValue = Getenv env varName;
                    expanded' = take idx expanded @ varValue @ drop (endIdx + 1) expanded
                in expandEnvVars_loop env expanded' (idx + length varValue))))"
  by pat_completeness auto
termination
proof (relation "measure (\<lambda>(env, expanded, start). length expanded - start)", goal_cases)
  case 1
  then show ?case by simp
next
  case (2 env expanded start i idx e endIdx varName varValue expanded')
  from 2(1) have a: "i + 2 \<le> length expanded - start"
    using Index_bound[of "drop start expanded" "''${''" i] by simp
  from 2(3) have b: "e + 1 \<le> length expanded - idx"
    using Index_bound[of "drop idx expanded" "''}''" e] by simp
  from a b 2 show ?case by auto
qed

declare expandEnvVars_loop.simps [simp del]

definition expandEnvVars :: "Env \<Rightarrow> string \<Rightarrow> string" where
  "expandEnvVars env v = expandEnvVars_loop env v 0"

section \<open>Header names\<close>

text \<open>
  \<^verbatim>\<open>strings.ToLower\<close> on the bytes of ASCII, which is what header names and strip patterns
  are made of: the letters \<^verbatim>\<open>A\<close> to \<^verbatim>\<open>Z\<close> move to \<^verbatim>\<open>a\<close> to \<^verbatim>\<open>z\<close>, every other byte stays.
\<close>

definition upperAZ :: string where
  "upperAZ = ''ABCDEFGHIJKLMNOPQRSTUVWXYZ''"

definition lowerAZ :: string where
  "lowerAZ = ''abcdefghijklmnopqrstuvwxyz''"

definition isUpperAZ :: "char \<Rightarrow> bool" where
  "isUpperAZ c = (c \<in> set upperAZ)"

definition isLowerAZ :: "char \<Rightarrow> bool" where
  "isLowerAZ c = (c \<in> set lowerAZ)"

definition toLowerByte :: "char \<Rightarrow> char" where
  "toLowerByte c = (case map_of (zip upperAZ lowerAZ) c of None \<Rightarrow> c | Some l \<Rightarrow> l)"

definition toUpperByte :: "char \<Rightarrow> char" where
  "toUpperByte c = (case map_of (zip lowerAZ upperAZ) c of None \<Rightarrow> c | Some u \<Rightarrow> u)"

definition ToLower :: "string \<Rightarrow> string" where
  "ToLower s = map toLowerByte s"

text \<open>
  \<^verbatim>\<open>matchesPattern\<close> (headers.go): both sides in lower case; equal names match; a pattern
  that contains \<^verbatim>\<open>*\<close> anywhere matches every name that starts with the pattern less one
  trailing \<^verbatim>\<open>*\<close>.
\<close>

definition matchesPattern :: "string \<Rightarrow> string \<Rightarrow> bool" where
  "matchesPattern headerName pattern =
     (let headerName = ToLower headerName; pattern = ToLower pattern in
      if headerName = pattern then True
      else if Contains pattern ''*'' then HasPrefix headerName (TrimSuffix pattern ''*'')
      else False)"

text \<open>
  The canonical form of a header name, \<^verbatim>\<open>textproto.CanonicalMIMEHeaderKey\<close> of the Go
  library, which \<^verbatim>\<open>Header.Set\<close>, \<^verbatim>\<open>Get\<close>, \<^verbatim>\<open>Add\<close> and \<^verbatim>\<open>Del\<close> apply to the name they are
  given: a name made of token bytes only gets an upper-case first letter and an upper-case
  letter after every \<^verbatim>\<open>-\<close>, all other letters in lower case; any other name stays as it is.
\<close>

definition validHeaderFieldByte :: "char \<Rightarrow> bool" where
  "validHeaderFieldByte c =
     (isUpperAZ c \<or> isLowerAZ c \<or> c \<in> set ''0123456789''
      \<or> c \<in> set ''!#$%&*+-.^_|~'' \<or> c = CHR 0x27 \<or> c = CHR 0x60)"

fun canonicalBytes :: "bool \<Rightarrow> string \<Rightarrow> string" where
  "canonicalBytes upper [] = []"
| "canonicalBytes upper (c # cs) =
     (let c' = (if upper \<and> isLowerAZ c then toUpperByte c
                else if \<not> upper \<and> isUpperAZ c then toLowerByte c
                else c)
      in c' # canonicalBytes (c' = CHR ''-'') cs)"

definition CanonicalMIMEHeaderKey :: "string \<Rightarrow> string" where
  "CanonicalMIMEHeaderKey s = (if list_all validHeaderFieldByte s then canonicalBytes True s else s)"

section \<open>Header maps\<close>

text \<open>
  \<^verbatim>\<open>http.Header\<close> is a Go map from names to lists of values. It is an association list
  here, read with \<^const>\<open>map_of\<close>; the order of the list stands for the order in which a
  \<^verbatim>\<open>range\<close> loop happens to visit the map, which Go leaves open. A direct assignment
  \<^verbatim>\<open>h[key] = values\<close> is \<^const>\<open>AList.update\<close>; the methods canonicalise the name first.
\<close>

type_synonym Header = "(string \<times> string list) list"

definition Header_Set :: "string \<Rightarrow> string \<Rightarrow> Header \<Rightarrow> Header" where
  "Header_Set key v h = AList.update (CanonicalMIMEHeaderKey key) [v] h"

definition Header_Add :: "string \<Rightarrow> string \<Rightarrow> Header \<Rightarrow> Header" where
  "Header_Add key v h =
     AList.update (CanonicalMIMEHeaderKey key)
       ((case map_of h (CanonicalMIMEHeaderKey key) of None \<Rightarrow> [] | Some vs \<Rightarrow> vs) @ [v]) h"

definition Header_Del :: "string \<Rightarrow> Header \<Rightarrow> Header" where
  "Header_Del key h = AList.delete (CanonicalMIMEHeaderKey key) h"

definition Header_Get :: "string \<Rightarrow> Header \<Rightarrow> string" where
  "Header_Get key h =
     (case map_of h (CanonicalMIMEHeaderKey key) of
        None \<Rightarrow> []
      | Some [] \<Rightarrow> []
      | Some (v # _) \<Rightarrow> v)"

section \<open>The header engine (headers.go)\<close>

record HeaderConfig =
  StripIncoming :: "string list"
  StripOutgoing :: "string list"
  AddUpstream :: "(string \<times> string) list"
  AddDownstream :: "(string \<times> string) list"
  ReplaceIncoming :: "(string \<times> string) list"
  ReplaceOutgoing :: "(string \<times> string) list"

text \<open>
  \<^verbatim>\<open>stripHeaders\<close>: a fresh map that receives every entry whose name matches none of the
  patterns.
\<close>

definition stripHeaders :: "Header \<Rightarrow> string list \<Rightarrow> Header" where
  "stripHeaders header patterns =
     fold (\<lambda>(key, values) result.
             if list_ex (matchesPattern key) patterns then result
             else AList.update key values result)
          header []"

text \<open>
  \<^verbatim>\<open>processHeaders\<close>: copy, strip, replace, add. The two rule maps are Go maps, and a
  \<^verbatim>\<open>range\<close> loop visits a Go map in an order that Go leaves open and that may change from
  one loop to the next. The lists \<open>replaceHeaders\<close> and \<open>addHeaders\<close> are the entries of the
  rule maps in the order in which the two loops of this one call visit them; a statement
  about two calls gives each call its own lists (\<open>sameRuleSet\<close> below). The log lines and
  counters of the source do not touch the headers and are left out.
\<close>

definition processHeaders ::
  "Env \<Rightarrow> Header \<Rightarrow> string list \<Rightarrow> (string \<times> string) list \<Rightarrow> (string \<times> string) list \<Rightarrow> Header" where
  "processHeaders env inHeader stripPatterns replaceHeaders addHeaders =
     (let outHeader = fold (\<lambda>(key, values) out. AList.update key values out) inHeader [];
          outHeader = stripHeaders outHeader stripPatterns;
          outHeader = fold (\<lambda>(key, v) out. Header_Set key v out) replaceHeaders outHeader;
          outHeader = fold (\<lambda>(key, v) out. Header_Set key (expandEnvVars env v) out) addHeaders outHeader
      in outHeader)"

definition ProcessIncoming :: "Env \<Rightarrow> HeaderConfig \<Rightarrow> Header \<Rightarrow> Header" where
  "ProcessIncoming env cfg inHeader =
     processHeaders env inHeader (StripIncoming cfg) (ReplaceIncoming cfg) (AddUpstream cfg)"

definition ProcessOutgoing :: "Env \<Rightarrow> HeaderConfig \<Rightarrow> Header \<Rightarrow> Header" where
  "ProcessOutgoing env cfg inHeader =
     processHeaders env inHeader (StripOutgoing cfg) (ReplaceOutgoing cfg) (AddDownstream cfg)"

text \<open>
  What a \<^verbatim>\<open>range\<close> loop of \<^verbatim>\<open>Set\<close> calls over a rule map leaves behind, as a map: the
  canonical name of each rule with its one value, a later rule winning over an earlier one
  of the same canonical name.
\<close>

definition ruleMap :: "(string \<Rightarrow> string) \<Rightarrow> (string \<times> string) list \<Rightarrow> (string \<rightharpoonup> string list)" where
  "ruleMap g rules = map_of (rev (map (\<lambda>(k, v). (CanonicalMIMEHeaderKey k, [g v])) rules))"

text \<open>
  Two listings of one Go \<^verbatim>\<open>HeaderConfig\<close>: the same strip lists, and the same entries in each
  rule map, visited in whatever order. The names of a Go map are distinct; their
  canonical forms need not be.
\<close>

definition sameRuleSet :: "HeaderConfig \<Rightarrow> HeaderConfig \<Rightarrow> bool" where
  "sameRuleSet cfg cfg' =
     (StripIncoming cfg' = StripIncoming cfg \<and> StripOutgoing cfg' = StripOutgoing cfg
      \<and> mset (ReplaceIncoming cfg') = mset (ReplaceIncoming cfg)
      \<and> mset (ReplaceOutgoing cfg') = mset (ReplaceOutgoing cfg)
      \<and> mset (AddUpstream cfg') = mset (AddUpstream cfg)
      \<and> mset (AddDownstream cfg') = mset (AddDownstream cfg))"

definition canonicalNames :: "(string \<times> string) list \<Rightarrow> string list" where
  "canonicalNames rules = map (\<lambda>(k, v). CanonicalMIMEHeaderKey k) rules"

section \<open>Routes (config.go, route.go)\<close>

text \<open>
  A parsed URL with the fields the proxy reads. \<^verbatim>\<open>url.Parse\<close> belongs to the Go library
  and is a parameter of everything that calls it: a function from strings to parsed URLs,
  \<^term>\<open>None\<close> when it reports an error.
\<close>

record URL =
  Scheme :: string
  Host :: string
  Path :: string
  RawQuery :: string
  Fragment :: string

type_synonym Parse = "string \<Rightarrow> URL option"

definition IsAbs :: "URL \<Rightarrow> bool" where
  "IsAbs u = (Scheme u \<noteq> [])"

record RouteConfig =
  Name :: string
  PathPrefix :: string
  Upstream :: string
  UpstreamPathPrefix :: string
  PreserveHost :: bool
  Headers :: HeaderConfig
  Timeout :: int
  TLSMode :: string
  RewriteRedirects :: bool
  RedirectBaseURL :: string

text \<open>
  A compiled route: its configuration and the parsed upstream. The header manipulator of
  the source is bound to \<^term>\<open>Headers (config r)\<close>; the reverse proxy of the route has
  \<^verbatim>\<open>Director\<close> and \<^verbatim>\<open>Transport\<close> set and nothing else.
\<close>

record Route =
  config :: RouteConfig
  upstream :: URL

definition NewRoute :: "Parse \<Rightarrow> RouteConfig \<Rightarrow> Route option" where
  "NewRoute parse cfg =
     (case parse (Upstream cfg) of
        None \<Rightarrow> None
      | Some upstreamURL \<Rightarrow> Some \<lparr>config = cfg, upstream = upstreamURL\<rparr>)"

text \<open>The request, with the fields the proxy reads or writes; \<^verbatim>\<open>Host\<close> of Go is \<open>ReqHost\<close>.\<close>

record Request =
  Header :: Header
  URL :: URL
  ReqHost :: string
  TLS :: bool

definition Match :: "Route \<Rightarrow> Request \<Rightarrow> bool" where
  "Match r req = HasPrefix (Path (URL req)) (PathPrefix (config r))"

definition shouldStripHeader :: "Route \<Rightarrow> string \<Rightarrow> bool" where
  "shouldStripHeader r headerName = list_ex (matchesPattern headerName) (StripIncoming (Headers (config r)))"

subsection \<open>Hop-by-hop headers\<close>

text \<open>
  \<^verbatim>\<open>strings.Split\<close> at a one-byte separator and \<^verbatim>\<open>strings.TrimSpace\<close> for the white space
  of ASCII.
\<close>

fun Split :: "string \<Rightarrow> char \<Rightarrow> string list" where
  "Split [] sep = [[]]"
| "Split (c # cs) sep =
     (if c = sep then [] # Split cs sep
      else (case Split cs sep of [] \<Rightarrow> [[c]] | w # ws \<Rightarrow> (c # w) # ws))"

definition isSpace :: "char \<Rightarrow> bool" where
  "isSpace c = (c \<in> {CHR 0x09, CHR 0x0A, CHR 0x0B, CHR 0x0C, CHR 0x0D, CHR 0x20})"

definition TrimSpace :: "string \<Rightarrow> string" where
  "TrimSpace s = rev (dropWhile isSpace (rev (dropWhile isSpace s)))"

definition hopByHopHeaders :: "string list" where
  "hopByHopHeaders =
     [''Connection'', ''Keep-Alive'', ''Proxy-Authenticate'', ''Proxy-Authorization'',
      ''Te'', ''Trailers'', ''Transfer-Encoding'', ''Upgrade'']"

text \<open>
  \<^verbatim>\<open>removeHopByHopHeaders\<close>, in the order of the source: the fixed names are deleted, then
  \<^verbatim>\<open>Connection\<close> is read and the names it lists are deleted.
\<close>

definition removeHopByHopHeaders :: "Header \<Rightarrow> Header" where
  "removeHopByHopHeaders header =
     (let header = fold (\<lambda>h hd. Header_Del h hd) hopByHopHeaders header;
          connections = Header_Get ''Connection'' header
      in if connections \<noteq> []
         then fold (\<lambda>connection hd. Header_Del (TrimSpace connection) hd) (Split connections CHR '','') header
         else header)"

subsection \<open>The director\<close>

definition director :: "Env \<Rightarrow> Route \<Rightarrow> Request \<Rightarrow> Request" where
  "director env r req =
     (let req = req\<lparr>Header := ProcessIncoming env (Headers (config r)) (Header req)\<rparr>;
          req = req\<lparr>URL := (URL req)\<lparr>Scheme := Scheme (upstream r), Host := Host (upstream r)\<rparr>\<rparr>;
          req = (if UpstreamPathPrefix (config r) \<noteq> []
                 then (let path = TrimPrefix (Path (URL req)) (PathPrefix (config r));
                           newPath = UpstreamPathPrefix (config r) @ path
                       in req\<lparr>URL := (URL req)\<lparr>Path :=
                            (if HasPrefix newPath ''//'' then drop 1 newPath else newPath)\<rparr>\<rparr>)
                 else req);
          req = (if \<not> PreserveHost (config r) then req\<lparr>ReqHost := Host (upstream r)\<rparr> else req);
          req = req\<lparr>Header := removeHopByHopHeaders (Header req)\<rparr>;
          req = (if shouldStripHeader r ''X-Forwarded-For''
                 then req\<lparr>Header := Header_Del ''X-Forwarded-For'' (Header req)\<rparr>
                 else req)
      in req)"

subsection \<open>The transport wrapper\<close>

text \<open>
  What the network answers: an error of the round trip or a response. The base transport
  is a parameter.
\<close>

datatype TransportError =
    DialTimeout | TLSHandshakeTimeout | ResponseHeaderTimeout | RequestTimeout
  | ConnectFailed | TLSHandshakeFailed

record Response =
  StatusCode :: int
  RespHeader :: Header
  Body :: "string list"

type_synonym Transport = "Request \<Rightarrow> TransportError + Response"

text \<open>
  \<^verbatim>\<open>headerStrippingTransport.RoundTrip\<close>: for each strip pattern that is literally
  \<^verbatim>\<open>X-Forwarded-*\<close>, every name of the request that matches it is handed to \<^verbatim>\<open>Del\<close>; then
  the base transport sends the request. The inner loop runs over the names present when
  it starts; \<^verbatim>\<open>Del\<close> removes canonical names only, and a second \<^verbatim>\<open>Del\<close> of a name already
  removed changes nothing, so that is the loop of the source over the live map.
\<close>

definition stripBeforeSend :: "Route \<Rightarrow> Request \<Rightarrow> Request" where
  "stripBeforeSend r req =
     fold (\<lambda>pattern rq.
             if pattern = ''X-Forwarded-*''
             then rq\<lparr>Header := fold (\<lambda>key hd. if matchesPattern key pattern then Header_Del key hd else hd)
                                     (map fst (Header rq)) (Header rq)\<rparr>
             else rq)
          (StripIncoming (Headers (config r))) req"

definition RoundTrip :: "Transport \<Rightarrow> Route \<Rightarrow> Request \<Rightarrow> TransportError + Response" where
  "RoundTrip base r req = base (stripBeforeSend r req)"

subsection \<open>The route table\<close>

text \<open>
  \<^verbatim>\<open>sort.Slice\<close> with the comparison of \<^verbatim>\<open>sortRoutesByPrefixLength\<close>. The Go library
  promises a permutation in which no element is less than one in front of it, and leaves
  the order of equal elements open: \<open>orderedByPrefixLength\<close> is that promise, and
  \<open>sortRoutesByPrefixLength\<close> one sort that keeps it (by insertion).
\<close>

definition lessRoute :: "Route \<Rightarrow> Route \<Rightarrow> bool" where
  "lessRoute a b = (length (PathPrefix (config a)) > length (PathPrefix (config b)))"

fun insertRoute :: "Route \<Rightarrow> Route list \<Rightarrow> Route list" where
  "insertRoute x [] = [x]"
| "insertRoute x (y # ys) = (if lessRoute x y then x # y # ys else y # insertRoute x ys)"

definition sortRoutesByPrefixLength :: "Route list \<Rightarrow> Route list" where
  "sortRoutesByPrefixLength routes = foldr insertRoute routes []"

definition orderedByPrefixLength :: "Route list \<Rightarrow> Route list \<Rightarrow> bool" where
  "orderedByPrefixLength routes table =
     (mset table = mset routes \<and> sorted_wrt (\<lambda>a b. \<not> lessRoute b a) table)"

text \<open>The loop at the head of \<^verbatim>\<open>ServeHTTP\<close>: the first route of the table that matches.\<close>

fun findRoute :: "Route list \<Rightarrow> Request \<Rightarrow> Route option" where
  "findRoute [] req = None"
| "findRoute (route # rest) req = (if Match route req then Some route else findRoute rest req)"

section \<open>Redirect rewriting (headers.go)\<close>

definition buildProxyURL ::
  "Parse \<Rightarrow> string \<Rightarrow> string \<Rightarrow> RouteConfig \<Rightarrow> string \<Rightarrow> string \<Rightarrow> string \<Rightarrow> string" where
  "buildProxyURL parse scheme host route path query fragment =
     (let (scheme, host) =
            (if RedirectBaseURL route \<noteq> []
             then (case parse (RedirectBaseURL route) of
                     Some baseURL \<Rightarrow> (Scheme baseURL, Host baseURL)
                   | None \<Rightarrow> (scheme, host))
             else (scheme, host));
          scheme = (if scheme = [] then ''https'' else scheme);
          proxyURL = scheme @ ''://'' @ host;
          proxyURL = proxyURL @ PathPrefix route;
          path = (if UpstreamPathPrefix route \<noteq> [] then TrimPrefix path (UpstreamPathPrefix route) else path);
          path = (if path \<noteq> [] \<and> \<not> HasPrefix path ''/'' then ''/'' @ path else path);
          proxyURL = (if HasSuffix proxyURL ''/'' \<and> HasPrefix path ''/'' then proxyURL @ drop 1 path
                      else if \<not> HasSuffix proxyURL ''/'' \<and> \<not> HasPrefix path ''/'' then proxyURL @ ''/'' @ path
                      else proxyURL @ path);
          proxyURL = (if query \<noteq> [] then proxyURL @ ''?'' @ query else proxyURL);
          proxyURL = (if fragment \<noteq> [] then proxyURL @ ''#'' @ fragment else proxyURL)
      in proxyURL)"

text \<open>
  The loop of \<^verbatim>\<open>RewriteRedirect\<close> over the routes: the first route whose upstream parses
  and has the host of the location.
\<close>

fun knownUpstream :: "Parse \<Rightarrow> URL \<Rightarrow> RouteConfig list \<Rightarrow> RouteConfig option" where
  "knownUpstream parse locationURL [] = None"
| "knownUpstream parse locationURL (route # rest) =
     (case parse (Upstream route) of
        None \<Rightarrow> knownUpstream parse locationURL rest
      | Some routeUpstreamURL \<Rightarrow>
          if Host locationURL = Host routeUpstreamURL then Some route
          else knownUpstream parse locationURL rest)"

definition RewriteRedirect ::
  "Parse \<Rightarrow> string \<Rightarrow> string \<Rightarrow> string \<Rightarrow> RouteConfig list \<Rightarrow> RouteConfig \<Rightarrow> string \<times> bool \<times> string" where
  "RewriteRedirect parse location incomingHost incomingScheme routes currentRoute =
     (case parse location of
        None \<Rightarrow> (location, False, ''invalid_url'')
      | Some locationURL \<Rightarrow>
          if \<not> IsAbs locationURL then (location, False, ''relative'')
          else (case parse (Upstream currentRoute) of
                  None \<Rightarrow> (location, False, ''invalid_upstream'')
                | Some currentUpstreamURL \<Rightarrow>
                    if Host locationURL = Host currentUpstreamURL
                    then (buildProxyURL parse incomingScheme incomingHost currentRoute
                            (Path locationURL) (RawQuery locationURL) (Fragment locationURL),
                          True, ''internal'')
                    else (case knownUpstream parse locationURL routes of
                            Some route \<Rightarrow>
                              (buildProxyURL parse incomingScheme incomingHost route
                                 (Path locationURL) (RawQuery locationURL) (Fragment locationURL),
                               True, ''external_known'')
                          | None \<Rightarrow> (location, False, ''external_unknown''))))"

definition isRedirect :: "int \<Rightarrow> bool" where
  "isRedirect statusCode =
     (statusCode = 301 \<or> statusCode = 302 \<or> statusCode = 303 \<or> statusCode = 307 \<or> statusCode = 308)"

definition routesToConfigs :: "Route list \<Rightarrow> RouteConfig list" where
  "routesToConfigs routes = map config routes"

subsection \<open>The on-proxy URL in closed form\<close>

text \<open>
  The scheme and host of a rewritten location: those of the \<^verbatim>\<open>RedirectBaseURL\<close> of the route
  when it is set and parses, else those of the incoming request; an empty scheme is
  \<^verbatim>\<open>https\<close>.
\<close>

definition redirectBase :: "Parse \<Rightarrow> string \<Rightarrow> string \<Rightarrow> RouteConfig \<Rightarrow> string \<times> string" where
  "redirectBase parse incomingScheme incomingHost route =
     (case (if RedirectBaseURL route = [] then None else parse (RedirectBaseURL route)) of
        Some baseURL \<Rightarrow> (if Scheme baseURL = [] then ''https'' else Scheme baseURL, Host baseURL)
      | None \<Rightarrow> (if incomingScheme = [] then ''https'' else incomingScheme, incomingHost))"

text \<open>The path of a location as the route's upstream sees it, without the upstream path prefix.\<close>

definition strippedPath :: "RouteConfig \<Rightarrow> URL \<Rightarrow> string" where
  "strippedPath route locationURL =
     (if UpstreamPathPrefix route \<noteq> [] then TrimPrefix (Path locationURL) (UpstreamPathPrefix route)
      else Path locationURL)"

definition queryAndFragment :: "URL \<Rightarrow> string" where
  "queryAndFragment locationURL =
     (if RawQuery locationURL \<noteq> [] then ''?'' @ RawQuery locationURL else [])
     @ (if Fragment locationURL \<noteq> [] then ''#'' @ Fragment locationURL else [])"

text \<open>
  The URL as the claim words it: scheme, host, the path prefix and the stripped path put
  together, one of the two slashes dropped where the prefix ends and the path begins with
  one, then query and fragment.
\<close>

definition claimedProxyURL :: "Parse \<Rightarrow> string \<Rightarrow> string \<Rightarrow> RouteConfig \<Rightarrow> URL \<Rightarrow> string" where
  "claimedProxyURL parse incomingScheme incomingHost route locationURL =
     (case redirectBase parse incomingScheme incomingHost route of
        (baseScheme, baseHost) \<Rightarrow>
          baseScheme @ ''://'' @ baseHost
          @ (if HasSuffix (PathPrefix route) ''/'' \<and> HasPrefix (strippedPath route locationURL) ''/''
             then PathPrefix route @ drop 1 (strippedPath route locationURL)
             else PathPrefix route @ strippedPath route locationURL)
          @ queryAndFragment locationURL)"

text \<open>
  The URL as amended: exactly one slash stands between the two parts, a slash at the end
  of the first and one at the head of the second merged into it.
\<close>

definition chopSlashEnd :: "string \<Rightarrow> string" where
  "chopSlashEnd s = (if HasSuffix s ''/'' then butlast s else s)"

definition chopSlashFront :: "string \<Rightarrow> string" where
  "chopSlashFront s = (if HasPrefix s ''/'' then drop 1 s else s)"

definition onProxyURL :: "Parse \<Rightarrow> string \<Rightarrow> string \<Rightarrow> RouteConfig \<Rightarrow> URL \<Rightarrow> string" where
  "onProxyURL parse incomingScheme incomingHost route locationURL =
     (case redirectBase parse incomingScheme incomingHost route of
        (baseScheme, baseHost) \<Rightarrow>
          chopSlashEnd (baseScheme @ ''://'' @ baseHost @ PathPrefix route) @ ''/''
          @ chopSlashFront (strippedPath route locationURL)
          @ queryAndFragment locationURL)"

section \<open>Response writers (proxy.go)\<close>

text \<open>
  The writer of the client connection, as \<^verbatim>\<open>net/http\<close> specifies an \<^verbatim>\<open>http.ResponseWriter\<close>:
  \<open>cwHeader\<close> is the map that \<^verbatim>\<open>Header()\<close> returns; the first \<^verbatim>\<open>WriteHeader\<close> sends the status
  with the headers as they are at that moment (\<open>cwSent\<close>) and later ones are ignored; a
  \<^verbatim>\<open>Write\<close> before any \<^verbatim>\<open>WriteHeader\<close> sends status 200 first.
\<close>

record ClientWriter =
  cwHeader :: Header
  cwStatus :: "int option"
  cwSent :: Header
  cwBody :: string

definition cw_WriteHeader :: "int \<Rightarrow> ClientWriter \<Rightarrow> ClientWriter" where
  "cw_WriteHeader statusCode w =
     (if cwStatus w = None then w\<lparr>cwStatus := Some statusCode, cwSent := cwHeader w\<rparr> else w)"

definition cw_Write :: "string \<Rightarrow> ClientWriter \<Rightarrow> ClientWriter" where
  "cw_Write bytes w =
     (let w = (if cwStatus w = None then cw_WriteHeader 200 w else w)
      in w\<lparr>cwBody := cwBody w @ bytes\<rparr>)"

text \<open>\<^verbatim>\<open>http.Error\<close> of the Go library: two headers, the status, the message and a newline.\<close>

definition http_Error :: "ClientWriter \<Rightarrow> string \<Rightarrow> int \<Rightarrow> ClientWriter" where
  "http_Error w msg code =
     (let h = Header_Del ''Content-Length'' (cwHeader w);
          h = Header_Set ''Content-Type'' ''text/plain; charset=utf-8'' h;
          h = Header_Set ''X-Content-Type-Options'' ''nosniff'' h;
          w = cw_WriteHeader code (w\<lparr>cwHeader := h\<rparr>)
      in cw_Write (msg @ [CHR 0x0A]) w)"

subsection \<open>redirectRewritingResponseWriter\<close>

record redirectRewritingResponseWriter =
  rw_ResponseWriter :: ClientWriter
  rw_route :: Route
  rw_routes :: "Route list"
  rw_incomingHost :: string
  rw_incomingScheme :: string
  rw_wroteHeader :: bool

definition handleRedirectRewrite ::
  "Parse \<Rightarrow> redirectRewritingResponseWriter \<Rightarrow> redirectRewritingResponseWriter" where
  "handleRedirectRewrite parse rw =
     (let location = Header_Get ''Location'' (cwHeader (rw_ResponseWriter rw))
      in if location = [] then rw
         else (case RewriteRedirect parse location (rw_incomingHost rw) (rw_incomingScheme rw)
                      (routesToConfigs (rw_routes rw)) (config (rw_route rw)) of
                 (rewrittenLocation, rewritten, rewriteType) \<Rightarrow>
                   if rewritten
                   then rw\<lparr>rw_ResponseWriter := (rw_ResponseWriter rw)
                            \<lparr>cwHeader := Header_Set ''Location'' rewrittenLocation
                                           (cwHeader (rw_ResponseWriter rw))\<rparr>\<rparr>
                   else rw))"

text \<open>
  \<^verbatim>\<open>applyHeaderManipulations\<close>: the outgoing transform of the live header map, every name of
  the map handed to \<^verbatim>\<open>Del\<close>, and every processed value handed to \<^verbatim>\<open>Add\<close>.
\<close>

definition applyHeaderManipulations ::
  "Env \<Rightarrow> redirectRewritingResponseWriter \<Rightarrow> redirectRewritingResponseWriter" where
  "applyHeaderManipulations env rw =
     (let h = cwHeader (rw_ResponseWriter rw);
          processedHeaders = ProcessOutgoing env (Headers (config (rw_route rw))) h;
          h = fold (\<lambda>key hd. Header_Del key hd) (map fst h) h;
          h = fold (\<lambda>(key, values) hd. fold (\<lambda>v hd'. Header_Add key v hd') values hd) processedHeaders h
      in rw\<lparr>rw_ResponseWriter := (rw_ResponseWriter rw)\<lparr>cwHeader := h\<rparr>\<rparr>)"

definition rw_WriteHeader ::
  "Parse \<Rightarrow> Env \<Rightarrow> int \<Rightarrow> redirectRewritingResponseWriter \<Rightarrow> redirectRewritingResponseWriter" where
  "rw_WriteHeader parse env statusCode rw =
     (if rw_wroteHeader rw then rw
      else (let rw = rw\<lparr>rw_wroteHeader := True\<rparr>;
                rw = (if isRedirect statusCode then handleRedirectRewrite parse rw else rw);
                rw = applyHeaderManipulations env rw
            in rw\<lparr>rw_ResponseWriter := cw_WriteHeader statusCode (rw_ResponseWriter rw)\<rparr>))"

definition rw_Write ::
  "Parse \<Rightarrow> Env \<Rightarrow> string \<Rightarrow> redirectRewritingResponseWriter \<Rightarrow> redirectRewritingResponseWriter" where
  "rw_Write parse env bytes rw =
     (let rw = (if \<not> rw_wroteHeader rw then rw_WriteHeader parse env 200 rw else rw)
      in rw\<lparr>rw_ResponseWriter := cw_Write bytes (rw_ResponseWriter rw)\<rparr>)"

subsection \<open>statusCapturingResponseWriter\<close>

text \<open>
  The writer that \<^verbatim>\<open>ServeHTTP\<close> hands to the reverse proxy wraps either the client's
  writer or the redirect rewriting writer around it.
\<close>

datatype Writer = Plain ClientWriter | Rewriting redirectRewritingResponseWriter

fun W_client :: "Writer \<Rightarrow> ClientWriter" where
  "W_client (Plain w) = w"
| "W_client (Rewriting rw) = rw_ResponseWriter rw"

fun W_editHeader :: "(Header \<Rightarrow> Header) \<Rightarrow> Writer \<Rightarrow> Writer" where
  "W_editHeader f (Plain w) = Plain (w\<lparr>cwHeader := f (cwHeader w)\<rparr>)"
| "W_editHeader f (Rewriting rw) =
     Rewriting (rw\<lparr>rw_ResponseWriter := (rw_ResponseWriter rw)\<lparr>cwHeader := f (cwHeader (rw_ResponseWriter rw))\<rparr>\<rparr>)"

fun W_WriteHeader :: "Parse \<Rightarrow> Env \<Rightarrow> int \<Rightarrow> Writer \<Rightarrow> Writer" where
  "W_WriteHeader parse env statusCode (Plain w) = Plain (cw_WriteHeader statusCode w)"
| "W_WriteHeader parse env statusCode (Rewriting rw) = Rewriting (rw_WriteHeader parse env statusCode rw)"

fun W_Write :: "Parse \<Rightarrow> Env \<Rightarrow> string \<Rightarrow> Writer \<Rightarrow> Writer" where
  "W_Write parse env bytes (Plain w) = Plain (cw_Write bytes w)"
| "W_Write parse env bytes (Rewriting rw) = Rewriting (rw_Write parse env bytes rw)"

record statusCapturingResponseWriter =
  sc_ResponseWriter :: Writer
  sc_statusCode :: int
  sc_wroteHeader :: bool

definition sc_WriteHeader ::
  "Parse \<Rightarrow> Env \<Rightarrow> int \<Rightarrow> statusCapturingResponseWriter \<Rightarrow> statusCapturingResponseWriter" where
  "sc_WriteHeader parse env statusCode w =
     (let w = (if \<not> sc_wroteHeader w then w\<lparr>sc_statusCode := statusCode, sc_wroteHeader := True\<rparr> else w)
      in w\<lparr>sc_ResponseWriter := W_WriteHeader parse env statusCode (sc_ResponseWriter w)\<rparr>)"

definition sc_Write ::
  "Parse \<Rightarrow> Env \<Rightarrow> string \<Rightarrow> statusCapturingResponseWriter \<Rightarrow> statusCapturingResponseWriter" where
  "sc_Write parse env bytes w =
     (let w = (if \<not> sc_wroteHeader w then sc_WriteHeader parse env 200 w else w)
      in w\<lparr>sc_ResponseWriter := W_Write parse env bytes (sc_ResponseWriter w)\<rparr>)"

section \<open>The request pipeline (proxy.go, ServeHTTP)\<close>

text \<open>
  \<^verbatim>\<open>httputil.ReverseProxy\<close> belongs to the Go library. \<^verbatim>\<open>NewRoute\<close> sets its \<^verbatim>\<open>Director\<close> and
  its \<^verbatim>\<open>Transport\<close> and no other field, so the library calls the two in this order: the
  director on the outgoing request; the library's own changes to the request headers
  (adding \<^verbatim>\<open>X-Forwarded-For\<close>, for one), here the parameter \<open>editRequest\<close>; the transport.
  An error of the transport goes to the error handler, and with none set the library
  answers \<^verbatim>\<open>502 Bad Gateway\<close>. A response is copied to the writer: its headers (after the
  library's own changes, \<open>editResponse\<close>) with \<^verbatim>\<open>Add\<close>, then \<^verbatim>\<open>WriteHeader\<close>, then the body
  in chunks with \<^verbatim>\<open>Write\<close>.
\<close>

record Framework =
  editRequest :: "Header \<Rightarrow> Header"
  editResponse :: "Header \<Rightarrow> Header"

definition reverseProxy_ServeHTTP ::
  "Parse \<Rightarrow> Env \<Rightarrow> Framework \<Rightarrow> Transport \<Rightarrow> Route \<Rightarrow> statusCapturingResponseWriter \<Rightarrow> Request
   \<Rightarrow> statusCapturingResponseWriter" where
  "reverseProxy_ServeHTTP parse env fw base route rw req =
     (let outreq = director env route req;
          outreq = outreq\<lparr>Header := editRequest fw (Header outreq)\<rparr>
      in case RoundTrip base route outreq of
           Inl err \<Rightarrow> sc_WriteHeader parse env 502 rw
         | Inr res \<Rightarrow>
             (let rw = rw\<lparr>sc_ResponseWriter :=
                          W_editHeader
                            (\<lambda>h. fold (\<lambda>(k, vv) hd. fold (\<lambda>v hd'. Header_Add k v hd') vv hd)
                                       (editResponse fw (RespHeader res)) h)
                            (sc_ResponseWriter rw)\<rparr>;
                  rw = sc_WriteHeader parse env (StatusCode res) rw
              in fold (\<lambda>chunk w. sc_Write parse env chunk w) (Body res) rw))"

text \<open>
  \<^verbatim>\<open>ServeHTTP\<close>: the table of the proxy is searched in its order; no route is answered with
  404; otherwise the writers are stacked and the reverse proxy of the route serves the
  request. The value is the state of the client's writer at the end, that is what the
  client has received. Logs and metrics are left out.
\<close>

record Proxy =
  p_routes :: "Route list"

definition ServeHTTP ::
  "Parse \<Rightarrow> Env \<Rightarrow> Framework \<Rightarrow> Transport \<Rightarrow> Proxy \<Rightarrow> ClientWriter \<Rightarrow> Request \<Rightarrow> ClientWriter" where
  "ServeHTTP parse env fw base p w r =
     (case findRoute (p_routes p) r of
        None \<Rightarrow> http_Error w ''No route found'' 404
      | Some matchedRoute \<Rightarrow>
          (let w' = (if RewriteRedirects (config matchedRoute)
                     then (let scheme = ''https'';
                               scheme = (if \<not> TLS r then ''http'' else scheme);
                               forwardedProto = Header_Get ''X-Forwarded-Proto'' (Header r);
                               scheme = (if forwardedProto \<noteq> [] then forwardedProto else scheme)
                           in Rewriting \<lparr>rw_ResponseWriter = w, rw_route = matchedRoute,
                                         rw_routes = p_routes p, rw_incomingHost = ReqHost r,
                                         rw_incomingScheme = scheme, rw_wroteHeader = False\<rparr>)
                     else Plain w);
               statusWriter = \<lparr>sc_ResponseWriter = w', sc_statusCode = 200, sc_wroteHeader = False\<rparr>;
               statusWriter = reverseProxy_ServeHTTP parse env fw base matchedRoute statusWriter r
           in W_client (sc_ResponseWriter statusWriter)))"

text \<open>A writer nothing has been written to.\<close>

definition newWriter :: ClientWriter where
  "newWriter = \<lparr>cwHeader = [], cwStatus = None, cwSent = [], cwBody = []\<rparr>"

section \<open>The request that reaches the transport\<close>

text \<open>
  The request that the reverse proxy of a route hands to the base transport: the director,
  the library's own changes to the headers, the strip of the transport wrapper. It is the
  argument of the base transport in \<open>reverseProxy_ServeHTTP\<close>.
\<close>

definition outboundRequest :: "Env \<Rightarrow> Framework \<Rightarrow> Route \<Rightarrow> Request \<Rightarrow> Request" where
  "outboundRequest env fw route req =
     (let outreq = director env route req;
          outreq = outreq\<lparr>Header := editRequest fw (Header outreq)\<rparr>
      in stripBeforeSend route outreq)"

section \<open>Configurations and requests for the examples\<close>

text \<open>
  A route configuration as a Go struct literal with only name, prefix and upstream leaves
  it after \<^verbatim>\<open>ApplyDefaults\<close>, and a plain request for a path.
\<close>

definition noHeaderRules :: HeaderConfig where
  "noHeaderRules =
     \<lparr>StripIncoming = [], StripOutgoing = [], AddUpstream = [], AddDownstream = [],
      ReplaceIncoming = [], ReplaceOutgoing = []\<rparr>"

definition routeConfig :: "string \<Rightarrow> string \<Rightarrow> string \<Rightarrow> RouteConfig" where
  "routeConfig name pathPrefix upstreamURL =
     \<lparr>Name = name, PathPrefix = pathPrefix, Upstream = upstreamURL, UpstreamPathPrefix = [],
      PreserveHost = False, Headers = noHeaderRules, Timeout = 30000000000,
      TLSMode = ''terminate'', RewriteRedirects = False, RedirectBaseURL = []\<rparr>"

definition httpURL :: "string \<Rightarrow> string \<Rightarrow> string \<Rightarrow> URL" where
  "httpURL scheme host path = \<lparr>Scheme = scheme, Host = host, Path = path, RawQuery = [], Fragment = []\<rparr>"

definition requestFor :: "string \<Rightarrow> Header \<Rightarrow> Request" where
  "requestFor path headers =
     \<lparr>Header = headers, URL = httpURL [] [] path, ReqHost = ''proxy.example.com'', TLS = False\<rparr>"

definition exampleRoute :: "string \<Rightarrow> string \<Rightarrow> string \<Rightarrow> Route" where
  "exampleRoute name pathPrefix host =
     \<lparr>config = routeConfig name pathPrefix (''http://'' @ host), upstream = httpURL ''http'' host []\<rparr>"

definition plainFramework :: Framework where
  "plainFramework = \<lparr>editRequest = (\<lambda>h. h), editResponse = (\<lambda>h. h)\<rparr>"

text \<open>
  A rule set that strips the client's \<^verbatim>\<open>Authorization\<close> and sets one of its own, and the same
  rule set with the add map visited in the other order.
\<close>

definition exampleRules :: HeaderConfig where
  "exampleRules =
     noHeaderRules\<lparr>StripIncoming := [''Authorization'', ''X-Forwarded-*''],
                   ReplaceIncoming := [(''user-agent'', ''proxy'')],
                   AddUpstream := [(''authorization'', ''Bearer ${TOKEN}''), (''x-api-key'', ''k'')]\<rparr>"

definition exampleRulesReordered :: HeaderConfig where
  "exampleRulesReordered =
     noHeaderRules\<lparr>StripIncoming := [''Authorization'', ''X-Forwarded-*''],
                   ReplaceIncoming := [(''user-agent'', ''proxy'')],
                   AddUpstream := [(''x-api-key'', ''k''), (''authorization'', ''Bearer ${TOKEN}'')]\<rparr>"

text \<open>What \<^verbatim>\<open>url.Parse\<close> returns on the URLs of the examples; any other string is an error here.\<close>

definition exampleParse :: Parse where
  "exampleParse =
     map_of
       [(''https://up.example.com'', httpURL ''https'' ''up.example.com'' []),
        (''https://up.example.com/api/v1/users?page=2#top'',
           \<lparr>Scheme = ''https'', Host = ''up.example.com'', Path = ''/api/v1/users'',
            RawQuery = ''page=2'', Fragment = ''top''\<rparr>),
        (''https://host'', httpURL ''https'' ''host'' []),
        (''http://host:8080/p'', httpURL ''http'' ''host:8080'' ''/p''),
        (''//host/p'', httpURL [] ''host'' ''/p'')]"

text \<open>
  A reverse proxy library that records the client address in \<^verbatim>\<open>X-Forwarded-For\<close> after the
  director has run, as \<^verbatim>\<open>httputil.ReverseProxy\<close> does.
\<close>

definition forwardingFramework :: Framework where
  "forwardingFramework =
     \<lparr>editRequest = (\<lambda>h. Header_Set ''X-Forwarded-For'' ''10.0.0.7'' h), editResponse = (\<lambda>h. h)\<rparr>"

section \<open>Properties of the environment expansion\<close>

subsection \<open>One round of the loop\<close>

lemma loop_None1:
  "Index (drop start expanded) ''${'' = None \<Longrightarrow> expandEnvVars_loop env expanded start = expanded"
  by (subst expandEnvVars_loop.simps) simp

lemma loop_None2:
  "Index (drop start expanded) ''${'' = Some i \<Longrightarrow> Index (drop (i + start) expanded) ''}'' = None
   \<Longrightarrow> expandEnvVars_loop env expanded start = expanded"
  by (subst expandEnvVars_loop.simps) simp

lemma loop_Some:
  "Index (drop start expanded) ''${'' = Some i \<Longrightarrow> Index (drop (i + start) expanded) ''}'' = Some e
   \<Longrightarrow> expandEnvVars_loop env expanded start =
       expandEnvVars_loop env
         (take (i + start) expanded @ Getenv env (take (e - 2) (drop (i + start + 2) expanded))
            @ drop (e + (i + start) + 1) expanded)
         (i + start + length (Getenv env (take (e - 2) (drop (i + start + 2) expanded))))"
  by (subst expandEnvVars_loop.simps) (simp add: Let_def add.assoc)

text \<open>The loop never looks in front of \<^verbatim>\<open>start\<close>: a spliced value is not scanned again.\<close>

lemma loop_drop:
  "start \<le> length expanded \<Longrightarrow>
   expandEnvVars_loop env expanded start = take start expanded @ expandEnvVars_loop env (drop start expanded) 0"
proof (induction "length expanded - start" arbitrary: expanded start rule: less_induct)
  case less
  let ?D = "drop start expanded"
  show ?case
  proof (cases "Index ?D ''${''")
    case None
    then show ?thesis by (simp add: loop_None1)
  next
    case (Some i)
    note Si = Some
    show ?thesis
    proof (cases "Index (drop (i + start) expanded) ''}''")
      case None
      have "expandEnvVars_loop env ?D 0 = ?D"
        by (rule loop_None2[where i=i]) (use Si None in \<open>simp_all add: add.commute\<close>)
      with loop_None2[OF Si None] show ?thesis by simp
    next
      case (Some e)
      define val where "val = Getenv env (take (e - 2) (drop (i + start + 2) expanded))"
      define R where "R = drop (e + (i + start) + 1) expanded"
      from Si have a: "i + 2 \<le> length expanded - start"
        using Index_bound[of ?D "''${''" i] by simp
      from Some have b: "e + 1 \<le> length expanded - (i + start)"
        using Index_bound[of "drop (i + start) expanded" "''}''" e] by simp
      have L: "expandEnvVars_loop env expanded start =
               expandEnvVars_loop env (take (i + start) expanded @ val @ R) (i + start + length val)"
        unfolding val_def R_def by (rule loop_Some[OF Si Some])
      have L2: "expandEnvVars_loop env (take (i + start) expanded @ val @ R) (i + start + length val)
                = take (i + start) expanded @ val @ expandEnvVars_loop env R 0"
      proof -
        have "expandEnvVars_loop env (take (i + start) expanded @ val @ R) (i + start + length val)
              = take (i + start + length val) (take (i + start) expanded @ val @ R)
                @ expandEnvVars_loop env (drop (i + start + length val) (take (i + start) expanded @ val @ R)) 0"
          by (rule less.hyps) (use a b less.prems in \<open>auto simp: R_def\<close>)
        also have "\<dots> = take (i + start) expanded @ val @ expandEnvVars_loop env R 0"
          using a b less.prems by simp
        finally show ?thesis .
      qed
      have Si': "Index (drop 0 ?D) ''${'' = Some i" using Si by simp
      have Se': "Index (drop (i + 0) ?D) ''}'' = Some e" using Some by (simp add: add.commute)
      have RD: "drop (e + i + 1) ?D = R" by (simp add: R_def add.commute add.left_commute)
      have valD: "Getenv env (take (e - 2) (drop (i + 2) ?D)) = val"
        by (simp add: val_def add.commute add.left_commute)
      have M: "expandEnvVars_loop env ?D 0 =
               expandEnvVars_loop env (take i ?D @ val @ R) (i + length val)"
        using loop_Some[OF Si' Se', of env] RD valD by simp
      have M2: "expandEnvVars_loop env (take i ?D @ val @ R) (i + length val)
                = take i ?D @ val @ expandEnvVars_loop env R 0"
      proof -
        have "expandEnvVars_loop env (take i ?D @ val @ R) (i + length val)
              = take (i + length val) (take i ?D @ val @ R)
                @ expandEnvVars_loop env (drop (i + length val) (take i ?D @ val @ R)) 0"
          by (rule less.hyps) (use a b less.prems in \<open>auto simp: R_def\<close>)
        also have "\<dots> = take i ?D @ val @ expandEnvVars_loop env R 0"
          using a b less.prems by simp
        finally show ?thesis .
      qed
      have "take (start + i) expanded = take start expanded @ take i ?D"
        by (rule take_add)
      then have "take start expanded @ take i ?D = take (i + start) expanded"
        by (simp only: add.commute[of start i])
      with L L2 M M2 show ?thesis by (metis append_assoc)
    qed
  qed
qed

lemma expand_step:
  assumes "Index s ''${'' = Some i" "Index (drop i s) ''}'' = Some j"
  shows "expandEnvVars env s =
         take i s @ Getenv env (take (j - 2) (drop (i + 2) s)) @ expandEnvVars env (drop (i + j + 1) s)"
proof -
  let ?val = "Getenv env (take (j - 2) (drop (i + 2) s))"
  from assms(1) have a: "i + 2 \<le> length s" using Index_bound[of s "''${''" i] by simp
  from assms(2) have b: "j + 1 \<le> length s - i" using Index_bound[of "drop i s" "''}''" j] by simp
  have "expandEnvVars_loop env s 0 =
        expandEnvVars_loop env (take i s @ ?val @ drop (j + i + 1) s) (i + length ?val)"
    using loop_Some[of 0 s i j env] assms by simp
  also have "\<dots> = take (i + length ?val) (take i s @ ?val @ drop (j + i + 1) s)
       @ expandEnvVars_loop env (drop (i + length ?val) (take i s @ ?val @ drop (j + i + 1) s)) 0"
    by (rule loop_drop) (use a b in auto)
  also have "\<dots> = take i s @ ?val @ expandEnvVars_loop env (drop (i + j + 1) s) 0"
    using a b by (simp add: add.commute)
  finally show ?thesis by (simp add: expandEnvVars_def)
qed

lemma Index_first_dollar:
  "\<not> Contains pre ''${'' \<Longrightarrow> Index (pre @ ''${'' @ rest) ''${'' = Some (length pre)"
proof (induction pre)
  case Nil
  then show ?case by (simp add: HasPrefix_def)
next
  case (Cons c cs)
  from Cons.prems have np: "\<not> HasPrefix (c # cs) ''${''" and nc: "\<not> Contains cs ''${''"
    by (auto simp: Contains_def split: if_splits)
  have "\<not> HasPrefix (c # cs @ ''${'' @ rest) ''${''"
    using np by (cases cs) (auto simp: HasPrefix_def)
  with Cons.IH[OF nc] show ?case by simp
qed

lemma Index_brace_none: "CHR ''}'' \<notin> set s \<Longrightarrow> Index s ''}'' = None"
  by (induction s) (auto simp: HasPrefix_def)

lemma Index_brace_first:
  "CHR ''}'' \<notin> set name \<Longrightarrow> Index (name @ ''}'' @ rest) ''}'' = Some (length name)"
  by (induction name) (auto simp: HasPrefix_def)

text \<open>
  Claim C8. Whatever the template and the environment: a template without \<^verbatim>\<open>${\<close> is
  returned as it is; at the first \<^verbatim>\<open>${\<close> that is closed by a later \<^verbatim>\<open>}\<close>, the text in
  front is kept, the reference is replaced by the value of the variable (by the empty
  string when the variable is not set) and the rest of the template is expanded in the same
  way; a \<^verbatim>\<open>${\<close> with no \<^verbatim>\<open>}\<close> behind it is left in the output untouched, with
  everything around it.
\<close>

theorem expandEnvVars_substitutes:
  "(\<not> Contains v ''${'' \<longrightarrow> expandEnvVars env v = v) \<and>
   (\<not> Contains pre ''${'' \<and> CHR ''}'' \<notin> set name \<longrightarrow>
      expandEnvVars env (pre @ ''${'' @ name @ ''}'' @ rest) =
        pre @ (case env name of Some x \<Rightarrow> x | None \<Rightarrow> []) @ expandEnvVars env rest) \<and>
   (\<not> Contains pre ''${'' \<and> CHR ''}'' \<notin> set rest \<longrightarrow>
      expandEnvVars env (pre @ ''${'' @ rest) = pre @ ''${'' @ rest)"
proof (intro conjI impI)
  assume "\<not> Contains v ''${''"
  then show "expandEnvVars env v = v"
    by (simp add: Contains_def expandEnvVars_def loop_None1)
next
  assume h: "\<not> Contains pre ''${'' \<and> CHR ''}'' \<notin> set name"
  let ?s = "pre @ ''${'' @ name @ ''}'' @ rest"
  have i: "Index ?s ''${'' = Some (length pre)"
    using h Index_first_dollar by blast
  have "Index (''${'' @ name @ ''}'' @ rest) ''}'' = Some (length (''${'' @ name))"
    using Index_brace_first[of "''${'' @ name" rest] h by simp
  then have j: "Index (drop (length pre) ?s) ''}'' = Some (length name + 2)"
    by simp
  have d: "drop (length pre + (length name + 2) + 1) ?s = rest"
    by (simp add: eval_nat_numeral)
  have t: "take (length name + 2 - 2) (drop (length pre + 2) ?s) = name"
    by (simp add: eval_nat_numeral)
  have p: "take (length pre) ?s = pre"
    by simp
  from expand_step[OF i j, of env]
  have "expandEnvVars env ?s = pre @ Getenv env name @ expandEnvVars env rest"
    unfolding d t p .
  then show "expandEnvVars env ?s =
        pre @ (case env name of Some x \<Rightarrow> x | None \<Rightarrow> []) @ expandEnvVars env rest"
    by (simp add: Getenv_def split: option.splits)
next
  assume h: "\<not> Contains pre ''${'' \<and> CHR ''}'' \<notin> set rest"
  let ?s = "pre @ ''${'' @ rest"
  have i: "Index (drop 0 ?s) ''${'' = Some (length pre)"
    using h Index_first_dollar by simp
  have "CHR ''}'' \<notin> set (''${'' @ rest)"
    using h by simp
  then have "Index (''${'' @ rest) ''}'' = None"
    by (rule Index_brace_none)
  then have j: "Index (drop (length pre + 0) ?s) ''}'' = None"
    by simp
  show "expandEnvVars env ?s = ?s"
    unfolding expandEnvVars_def by (rule loop_None2[OF i j])
qed

theorem expandEnvVars_substitutes_witness:
  "\<not> Contains ''key='' ''${'' \<and> CHR ''}'' \<notin> set ''API_KEY'' \<and> CHR ''}'' \<notin> set ''HOME''
   \<and> expandEnvVars [''API_KEY'' \<mapsto> ''s3cr3t''] ''key=${API_KEY};${UNSET}|${HOME'' = ''key=s3cr3t;|${HOME''"
proof -
  let ?env = "[''API_KEY'' \<mapsto> ''s3cr3t'']"
  have a: "\<not> Contains ''key='' ''${''" "\<not> Contains '';'' ''${''" "\<not> Contains ''|'' ''${''"
    by (simp_all add: Contains_def HasPrefix_def)
  have b: "CHR ''}'' \<notin> set ''API_KEY''" "CHR ''}'' \<notin> set ''UNSET''" "CHR ''}'' \<notin> set ''HOME''"
    by simp_all
  from expandEnvVars_substitutes[of _ ?env "''key=''" "''API_KEY''" "'';${UNSET}|${HOME''"] a b
  have 1: "expandEnvVars ?env ''key=${API_KEY};${UNSET}|${HOME'' = ''key=s3cr3t'' @ expandEnvVars ?env '';${UNSET}|${HOME''"
    by simp
  from expandEnvVars_substitutes[of _ ?env "'';''" "''UNSET''" "''|${HOME''"] a b
  have 2: "expandEnvVars ?env '';${UNSET}|${HOME'' = '';'' @ expandEnvVars ?env ''|${HOME''"
    by simp
  from expandEnvVars_substitutes[of _ ?env "''|''" _ "''HOME''"] a b
  have 3: "expandEnvVars ?env ''|${HOME'' = ''|${HOME''"
    by simp
  from 1 2 3 a b show ?thesis by simp
qed

section \<open>Properties of the header engine\<close>

lemma map_of_rev_distinct: "distinct (map fst xs) \<Longrightarrow> map_of (rev xs) = map_of xs"
proof (induction xs)
  case Nil
  then show ?case by simp
next
  case (Cons p xs)
  obtain k v where p: "p = (k, v)" by (cases p)
  from Cons.prems p have nk: "map_of (rev xs) k = None"
    by (simp add: map_of_eq_None_iff)
  from Cons have IH: "map_of (rev xs) = map_of xs" by simp
  have "map_of (rev (p # xs)) = map_of [(k, v)] ++ map_of (rev xs)"
    by (simp add: p map_of_append)
  also have "\<dots> = (map_of (rev xs))(k \<mapsto> v)"
    using nk by (auto simp: map_add_def fun_eq_iff split: option.splits)
  finally show ?case by (simp add: IH p)
qed

lemma map_of_fold_update:
  "map_of (fold (\<lambda>(k, v) out. AList.update (f k) (g v) out) xs acc)
   = map_of acc ++ map_of (rev (map (\<lambda>(k, v). (f k, g v)) xs))"
proof (induction xs arbitrary: acc)
  case Nil
  then show ?case by simp
next
  case (Cons p xs)
  obtain k v where p: "p = (k, v)" by (cases p)
  show ?case
    by (simp add: p Cons.IH map_of_append update_conv' map_add_assoc[symmetric])
       (auto simp: map_add_def fun_eq_iff split: option.splits)
qed

lemma distinct_fold_update:
  "distinct (map fst acc) \<Longrightarrow>
   distinct (map fst (fold (\<lambda>(k, v) out. AList.update (f k) (g v) out) xs acc))"
  by (induction xs arbitrary: acc) (auto simp: distinct_update)

lemma map_of_fold_strip:
  "map_of (fold (\<lambda>(key, values) result. if P key then result else AList.update key values result) xs acc)
   = map_of acc ++ map_of (rev (filter (\<lambda>x. \<not> P (fst x)) xs))"
proof (induction xs arbitrary: acc)
  case Nil
  then show ?case by simp
next
  case (Cons p xs)
  obtain k v where p: "p = (k, v)" by (cases p)
  show ?case
  proof (cases "P k")
    case True
    then show ?thesis by (simp add: p Cons.IH)
  next
    case False
    then show ?thesis
      by (simp add: p Cons.IH map_of_append update_conv' map_add_assoc[symmetric])
         (auto simp: map_add_def fun_eq_iff split: option.splits)
  qed
qed

lemma distinct_fold_strip:
  "distinct (map fst acc) \<Longrightarrow>
   distinct (map fst (fold (\<lambda>(key, values) result. if P key then result else AList.update key values result) xs acc))"
  by (induction xs arbitrary: acc) (auto simp: distinct_update)

lemma map_of_stripHeaders:
  "distinct (map fst h) \<Longrightarrow>
   map_of (stripHeaders h ps) = map_of h |` {k. \<not> list_ex (matchesPattern k) ps}"
proof -
  assume d: "distinct (map fst h)"
  then have "distinct (map fst (filter (\<lambda>x. \<not> list_ex (matchesPattern (fst x)) ps) h))"
    by (simp add: distinct_map_filter)
  then have "map_of (rev (filter (\<lambda>x. \<not> list_ex (matchesPattern (fst x)) ps) h))
             = map_of (filter (\<lambda>x. \<not> list_ex (matchesPattern (fst x)) ps) h)"
    by (rule map_of_rev_distinct)
  also have "\<dots> = map_of h |` {k. \<not> list_ex (matchesPattern k) ps}"
    by (rule map_of_filter)
  finally show ?thesis
    by (simp add: stripHeaders_def map_of_fold_strip)
qed

lemma distinct_stripHeaders: "distinct (map fst (stripHeaders h ps))"
  unfolding stripHeaders_def by (rule distinct_fold_strip) simp

lemma map_of_processHeaders:
  "map_of (processHeaders env h sp rp ad) =
     (map_of (rev h) |` {k. \<not> list_ex (matchesPattern k) sp})
       ++ ruleMap (\<lambda>v. v) rp ++ ruleMap (expandEnvVars env) ad"
proof -
  let ?copy = "fold (\<lambda>(key, values) out. AList.update key values out) h []"
  have c: "map_of ?copy = map_of (rev h)"
    using map_of_fold_update[of "\<lambda>k. k" "\<lambda>v. v" h "[]"] by simp
  have dc: "distinct (map fst ?copy)"
    using distinct_fold_update[of "[]" "\<lambda>k. k" "\<lambda>v. v" h] by simp
  have s: "map_of (stripHeaders ?copy sp) = map_of (rev h) |` {k. \<not> list_ex (matchesPattern k) sp}"
    using map_of_stripHeaders[OF dc] c by simp
  have set1: "(\<lambda>(key, v) out. Header_Set key v out) = (\<lambda>(k, v) out. AList.update (CanonicalMIMEHeaderKey k) [(\<lambda>v. v) v] out)"
    by (simp add: Header_Set_def fun_eq_iff)
  have set2: "(\<lambda>(key, v) out. Header_Set key (expandEnvVars env v) out) = (\<lambda>(k, v) out. AList.update (CanonicalMIMEHeaderKey k) [expandEnvVars env v] out)"
    by (simp add: Header_Set_def fun_eq_iff)
  show ?thesis
    unfolding processHeaders_def Let_def set1 set2
    by (simp only: map_of_fold_update[of CanonicalMIMEHeaderKey "\<lambda>v. [g v]" for g] s ruleMap_def)
qed

lemma distinct_processHeaders: "distinct (map fst (processHeaders env h sp rp ad))"
proof -
  have set1: "(\<lambda>(key, v) out. Header_Set key v out) = (\<lambda>(k, v) out. AList.update (CanonicalMIMEHeaderKey k) [(\<lambda>v. v) v] out)"
    by (simp add: Header_Set_def fun_eq_iff)
  have set2: "(\<lambda>(key, v) out. Header_Set key (expandEnvVars env v) out) = (\<lambda>(k, v) out. AList.update (CanonicalMIMEHeaderKey k) [expandEnvVars env v] out)"
    by (simp add: Header_Set_def fun_eq_iff)
  show ?thesis
    unfolding processHeaders_def Let_def set1 set2
    by (intro distinct_fold_update[of _ CanonicalMIMEHeaderKey "\<lambda>v. [g v]" for g] distinct_stripHeaders)
qed

text \<open>
  With one listing of the rules used by both runs, the transform run on its own output
  returns the same header map.
\<close>

lemma processHeaders_twice_same_order:
  "map_of (processHeaders env (processHeaders env h sp rp ad) sp rp ad) = map_of (processHeaders env h sp rp ad)"
proof -
  let ?P = "\<lambda>h. processHeaders env h sp rp ad"
  have r: "map_of (rev (?P h)) = map_of (?P h)"
    by (rule map_of_rev_distinct) (rule distinct_processHeaders)
  show "map_of (?P (?P h)) = map_of (?P h)"
    by (subst map_of_processHeaders, subst r, subst (1 2) map_of_processHeaders)
       (auto simp: fun_eq_iff map_add_def restrict_map_def split: option.splits)
qed

text \<open>
  When the canonical names of a rule map are distinct, the order of the visit does not
  matter.
\<close>

lemma ruleMap_any_order:
  assumes "mset rules' = mset rules" "distinct (canonicalNames rules)"
  shows "ruleMap g rules' = ruleMap g rules"
proof -
  let ?f = "\<lambda>(k, v). (CanonicalMIMEHeaderKey k, [g v])"
  have fst: "map fst (map ?f xs) = canonicalNames xs" for xs :: "(string \<times> string) list"
    by (induction xs) (auto simp: canonicalNames_def)
  have "mset (canonicalNames rules') = mset (canonicalNames rules)"
    unfolding canonicalNames_def using assms(1) by simp
  with assms(2) have d': "distinct (canonicalNames rules')"
    by (metis mset_eq_imp_distinct_iff)
  from assms(1) have "set rules' = set rules"
    by (rule mset_eq_setD)
  then have s: "set (map ?f rules') = set (map ?f rules)"
    by (simp only: set_map)
  have dd: "distinct (map fst (map ?f rules'))" "distinct (map fst (map ?f rules))"
    using assms(2) d' by (simp_all only: fst)
  then have "map_of (map ?f rules') = map_of (map ?f rules)"
    using s by (simp only: map_of_inject_set)
  moreover have "map_of (rev (map ?f rules')) = map_of (map ?f rules')"
    by (rule map_of_rev_distinct) (rule dd(1))
  moreover have "map_of (rev (map ?f rules)) = map_of (map ?f rules)"
    by (rule map_of_rev_distinct) (rule dd(2))
  ultimately show ?thesis by (simp add: ruleMap_def)
qed

lemma ProcessIncoming_any_order:
  assumes "sameRuleSet cfg cfg'"
    "distinct (canonicalNames (ReplaceIncoming cfg))" "distinct (canonicalNames (AddUpstream cfg))"
  shows "map_of (ProcessIncoming env cfg' h) = map_of (ProcessIncoming env cfg h)"
proof -
  from assms have r: "ruleMap (\<lambda>v. v) (ReplaceIncoming cfg') = ruleMap (\<lambda>v. v) (ReplaceIncoming cfg)"
    by (intro ruleMap_any_order) (simp_all add: sameRuleSet_def)
  from assms have a: "ruleMap (expandEnvVars env) (AddUpstream cfg') = ruleMap (expandEnvVars env) (AddUpstream cfg)"
    by (intro ruleMap_any_order) (simp_all add: sameRuleSet_def)
  from assms have s: "StripIncoming cfg' = StripIncoming cfg"
    by (simp add: sameRuleSet_def)
  show ?thesis
    by (simp only: ProcessIncoming_def map_of_processHeaders r a s)
qed

text \<open>
  Claim C7, as amended. Fix the environment and a rule set in which no two names of the
  replace map and no two names of the add map have the same canonical form. Then the
  incoming header transform (copy, strip, replace, add) is idempotent, whatever the order
  in which the \<^verbatim>\<open>range\<close> loops of each run visit the rule maps: the transform run on its own
  output gives the same header map as one run, name by name and value by value. A header
  that the replace or add step sets and that matches a strip pattern is removed by the
  strip step of the second run and set again to the same value.
\<close>

theorem incoming_transform_idempotent:
  assumes "sameRuleSet cfg cfg1" "sameRuleSet cfg cfg2" "sameRuleSet cfg cfg3"
    and "distinct (canonicalNames (ReplaceIncoming cfg))"
    and "distinct (canonicalNames (AddUpstream cfg))"
  shows "map_of (ProcessIncoming env cfg2 (ProcessIncoming env cfg1 h)) = map_of (ProcessIncoming env cfg3 h)"
proof -
  have "map_of (ProcessIncoming env cfg2 (ProcessIncoming env cfg1 h))
        = map_of (ProcessIncoming env cfg (ProcessIncoming env cfg1 h))"
    using assms by (intro ProcessIncoming_any_order)
  also have "\<dots> = map_of (ProcessIncoming env cfg (ProcessIncoming env cfg h))"
  proof -
    have e: "map_of (ProcessIncoming env cfg1 h) = map_of (ProcessIncoming env cfg h)"
      using assms by (intro ProcessIncoming_any_order)
    have r1: "map_of (rev (ProcessIncoming env cfg1 h)) = map_of (ProcessIncoming env cfg1 h)"
      unfolding ProcessIncoming_def by (rule map_of_rev_distinct) (rule distinct_processHeaders)
    have r: "map_of (rev (ProcessIncoming env cfg h)) = map_of (ProcessIncoming env cfg h)"
      unfolding ProcessIncoming_def by (rule map_of_rev_distinct) (rule distinct_processHeaders)
    show ?thesis
      unfolding ProcessIncoming_def[of env cfg "ProcessIncoming env cfg1 h"]
        ProcessIncoming_def[of env cfg "ProcessIncoming env cfg h"] map_of_processHeaders
      by (simp only: r1 r e)
  qed
  also have "\<dots> = map_of (ProcessIncoming env cfg h)"
    unfolding ProcessIncoming_def by (rule processHeaders_twice_same_order)
  also have "\<dots> = map_of (ProcessIncoming env cfg3 h)"
    using assms by (intro ProcessIncoming_any_order[symmetric])
  finally show ?thesis .
qed

theorem incoming_transform_idempotent_witness:
  "sameRuleSet exampleRules exampleRules \<and> sameRuleSet exampleRules exampleRulesReordered
   \<and> distinct (canonicalNames (ReplaceIncoming exampleRules))
   \<and> distinct (canonicalNames (AddUpstream exampleRules))
   \<and> map_of (ProcessIncoming [''TOKEN'' \<mapsto> ''t0''] exampleRulesReordered
         (ProcessIncoming [''TOKEN'' \<mapsto> ''t0''] exampleRules
            [(''Authorization'', [''client'']), (''Accept'', [''*/*''])]))
       = map_of (ProcessIncoming [''TOKEN'' \<mapsto> ''t0''] exampleRulesReordered
            [(''Authorization'', [''client'']), (''Accept'', [''*/*''])])"
proof -
  have s1: "sameRuleSet exampleRules exampleRules"
    by (simp add: sameRuleSet_def)
  have s2: "sameRuleSet exampleRules exampleRulesReordered"
    by (simp add: sameRuleSet_def exampleRules_def exampleRulesReordered_def noHeaderRules_def)
  have d1: "distinct (canonicalNames (ReplaceIncoming exampleRules))"
    by code_simp
  have d2: "distinct (canonicalNames (AddUpstream exampleRules))"
    by code_simp
  from incoming_transform_idempotent[OF s1 s2 s2 d1 d2] s1 s2 d1 d2
  show ?thesis by blast
qed

text \<open>
  The claim as stated, for any rule set, fails where two names of a rule map differ in
  letter case only: \<^verbatim>\<open>Set\<close> writes both to \<^verbatim>\<open>X-Foo\<close> and the one visited last wins. A first
  run that visits \<^verbatim>\<open>x-foo\<close> first leaves \<^verbatim>\<open>X-Foo: b\<close>; a second run over the same map that
  visits \<^verbatim>\<open>X-Foo\<close> first leaves \<^verbatim>\<open>X-Foo: a\<close>.
\<close>

theorem incoming_transform_order_counterexample:
  "sameRuleSet (noHeaderRules\<lparr>ReplaceIncoming := [(''x-foo'', ''a''), (''X-Foo'', ''b'')]\<rparr>)
               (noHeaderRules\<lparr>ReplaceIncoming := [(''X-Foo'', ''b''), (''x-foo'', ''a'')]\<rparr>)
   \<and> map_of (ProcessIncoming Map.empty (noHeaderRules\<lparr>ReplaceIncoming := [(''X-Foo'', ''b''), (''x-foo'', ''a'')]\<rparr>)
        (ProcessIncoming Map.empty (noHeaderRules\<lparr>ReplaceIncoming := [(''x-foo'', ''a''), (''X-Foo'', ''b'')]\<rparr>) []))
        ''X-Foo'' = Some [''a'']
   \<and> map_of (ProcessIncoming Map.empty (noHeaderRules\<lparr>ReplaceIncoming := [(''x-foo'', ''a''), (''X-Foo'', ''b'')]\<rparr>) [])
        ''X-Foo'' = Some [''b'']"
proof -
  have a: "sameRuleSet (noHeaderRules\<lparr>ReplaceIncoming := [(''x-foo'', ''a''), (''X-Foo'', ''b'')]\<rparr>)
               (noHeaderRules\<lparr>ReplaceIncoming := [(''X-Foo'', ''b''), (''x-foo'', ''a'')]\<rparr>)"
    by (simp add: sameRuleSet_def noHeaderRules_def)
  have b: "map_of (ProcessIncoming Map.empty (noHeaderRules\<lparr>ReplaceIncoming := [(''X-Foo'', ''b''), (''x-foo'', ''a'')]\<rparr>)
        (ProcessIncoming Map.empty (noHeaderRules\<lparr>ReplaceIncoming := [(''x-foo'', ''a''), (''X-Foo'', ''b'')]\<rparr>) []))
        ''X-Foo'' = Some [''a'']"
    by code_simp
  have c: "map_of (ProcessIncoming Map.empty (noHeaderRules\<lparr>ReplaceIncoming := [(''x-foo'', ''a''), (''X-Foo'', ''b'')]\<rparr>) [])
        ''X-Foo'' = Some [''b'']"
    by code_simp
  from a b c show ?thesis by blast
qed

section \<open>Properties of the route table\<close>

lemma mset_insertRoute: "mset (insertRoute x xs) = add_mset x (mset xs)"
  by (induction xs) auto

lemma set_insertRoute: "set (insertRoute x xs) = insert x (set xs)"
  by (induction xs) auto

lemma sorted_insertRoute:
  "sorted_wrt (\<lambda>a b. \<not> lessRoute b a) xs \<Longrightarrow> sorted_wrt (\<lambda>a b. \<not> lessRoute b a) (insertRoute x xs)"
  by (induction xs) (auto simp: set_insertRoute lessRoute_def)

lemma sortRoutes_ordered: "orderedByPrefixLength routes (sortRoutesByPrefixLength routes)"
  unfolding orderedByPrefixLength_def sortRoutesByPrefixLength_def
  by (induction routes) (auto simp: mset_insertRoute sorted_insertRoute)

lemma findRoute_None: "findRoute table req = None \<longleftrightarrow> (\<forall>r\<in>set table. \<not> Match r req)"
  by (induction table) auto

lemma findRoute_Some:
  "findRoute table req = Some r \<longleftrightarrow>
   (\<exists>pre post. table = pre @ r # post \<and> Match r req \<and> (\<forall>x\<in>set pre. \<not> Match x req))"
proof (induction table)
  case Nil
  then show ?case by simp
next
  case (Cons a table)
  show ?case
  proof (cases "Match a req")
    case True
    have "(\<exists>pre post. a # table = pre @ r # post \<and> Match r req \<and> (\<forall>x\<in>set pre. \<not> Match x req)) \<longleftrightarrow> a = r"
    proof
      assume "\<exists>pre post. a # table = pre @ r # post \<and> Match r req \<and> (\<forall>x\<in>set pre. \<not> Match x req)"
      then obtain pre post where h: "a # table = pre @ r # post" "\<forall>x\<in>set pre. \<not> Match x req" by blast
      show "a = r"
      proof (cases pre)
        case Nil
        with h show ?thesis by simp
      next
        case (Cons b pre')
        with h True show ?thesis by auto
      qed
    next
      assume "a = r"
      with True have "a # table = [] @ r # table \<and> Match r req \<and> (\<forall>x\<in>set []. \<not> Match x req)" by simp
      then show "\<exists>pre post. a # table = pre @ r # post \<and> Match r req \<and> (\<forall>x\<in>set pre. \<not> Match x req)" by blast
    qed
    with True show ?thesis by auto
  next
    case False
    have "(\<exists>pre post. a # table = pre @ r # post \<and> Match r req \<and> (\<forall>x\<in>set pre. \<not> Match x req))
          \<longleftrightarrow> (\<exists>pre post. table = pre @ r # post \<and> Match r req \<and> (\<forall>x\<in>set pre. \<not> Match x req))"
    proof
      assume "\<exists>pre post. a # table = pre @ r # post \<and> Match r req \<and> (\<forall>x\<in>set pre. \<not> Match x req)"
      then obtain pre post where h: "a # table = pre @ r # post" "Match r req" "\<forall>x\<in>set pre. \<not> Match x req" by blast
      show "\<exists>pre post. table = pre @ r # post \<and> Match r req \<and> (\<forall>x\<in>set pre. \<not> Match x req)"
      proof (cases pre)
        case Nil
        with h False show ?thesis by simp
      next
        case (Cons b pre')
        with h have "table = pre' @ r # post \<and> Match r req \<and> (\<forall>x\<in>set pre'. \<not> Match x req)" by simp
        then show ?thesis by blast
      qed
    next
      assume "\<exists>pre post. table = pre @ r # post \<and> Match r req \<and> (\<forall>x\<in>set pre. \<not> Match x req)"
      then obtain pre post where h: "table = pre @ r # post" "Match r req" "\<forall>x\<in>set pre. \<not> Match x req" by blast
      with False have "a # table = (a # pre) @ r # post \<and> Match r req \<and> (\<forall>x\<in>set (a # pre). \<not> Match x req)" by simp
      then show "\<exists>pre post. a # table = pre @ r # post \<and> Match r req \<and> (\<forall>x\<in>set pre. \<not> Match x req)" by blast
    qed
    with False Cons.IH show ?thesis by simp
  qed
qed

lemma findRoute_longest:
  assumes "orderedByPrefixLength routes table" "findRoute table req = Some r"
    "r' \<in> set routes" "Match r' req"
  shows "length (PathPrefix (config r')) \<le> length (PathPrefix (config r))"
proof -
  from assms(2) obtain pre post where t: "table = pre @ r # post" and np: "\<forall>x\<in>set pre. \<not> Match x req"
    unfolding findRoute_Some by blast
  from assms(1) have s: "sorted_wrt (\<lambda>a b. \<not> lessRoute b a) table" and m: "set table = set routes"
    unfolding orderedByPrefixLength_def by (auto dest: mset_eq_setD)
  from assms(3) m have "r' \<in> set table" by simp
  with t np assms(4) have "r' = r \<or> r' \<in> set post" by auto
  then show ?thesis
  proof
    assume "r' = r" then show ?thesis by simp
  next
    assume "r' \<in> set post"
    with s t have "\<not> lessRoute r' r" by (auto simp: sorted_wrt_append)
    then show ?thesis by (simp add: lessRoute_def)
  qed
qed

lemma same_length_prefix:
  "HasPrefix s p \<Longrightarrow> HasPrefix s q \<Longrightarrow> length p = length q \<Longrightarrow> p = q"
  unfolding HasPrefix_def by metis

lemma HasPrefix_length: "HasPrefix s p \<Longrightarrow> length p \<le> length s"
  unfolding HasPrefix_def by (metis length_take min.cobounded1)

lemma http_Error_status: "cwStatus w = None \<Longrightarrow> cwStatus (http_Error w msg code) = Some code"
  by (simp add: http_Error_def cw_WriteHeader_def cw_Write_def Let_def)

text \<open>
  Claim C5, as amended. Let the table be the routes in any order that puts no route behind
  one with a shorter prefix. The route that serves a request is the first route of the
  table whose prefix is a plain string prefix of the path, and no matching route has a
  longer prefix. For two routes with prefixes \<open>P1\<close> strictly a prefix of \<open>P2\<close> and a path
  that starts with \<open>P2\<close>, a route is found, its prefix is at least as long as \<open>P2\<close>, it is
  not the \<open>P1\<close> route, and its prefix is \<open>P2\<close> unless a route with a prefix longer than
  \<open>P2\<close> matches the path too. A request that matches no route is answered with 404.
\<close>

theorem longest_prefix_match:
  assumes "orderedByPrefixLength routes table"
  shows "(\<forall>r. findRoute table req = Some r \<longrightarrow>
            r \<in> set routes \<and> Match r req \<and>
            (\<exists>pre post. table = pre @ r # post \<and> (\<forall>x\<in>set pre. \<not> Match x req)) \<and>
            (\<forall>r'\<in>set routes. Match r' req \<longrightarrow>
               length (PathPrefix (config r')) \<le> length (PathPrefix (config r)))) \<and>
         (\<forall>r1\<in>set routes. \<forall>r2\<in>set routes.
            HasPrefix (PathPrefix (config r2)) (PathPrefix (config r1)) \<and>
            PathPrefix (config r1) \<noteq> PathPrefix (config r2) \<and>
            HasPrefix (Path (URL req)) (PathPrefix (config r2)) \<longrightarrow>
            (\<exists>r. findRoute table req = Some r \<and>
                 length (PathPrefix (config r2)) \<le> length (PathPrefix (config r)) \<and>
                 PathPrefix (config r) \<noteq> PathPrefix (config r1) \<and>
                 ((\<forall>r'\<in>set routes. Match r' req \<longrightarrow>
                     length (PathPrefix (config r')) \<le> length (PathPrefix (config r2)))
                  \<longrightarrow> PathPrefix (config r) = PathPrefix (config r2)))) \<and>
         ((\<forall>r\<in>set routes. \<not> Match r req) \<and> cwStatus w = None \<longrightarrow>
            cwStatus (ServeHTTP parse env fw base \<lparr>p_routes = table\<rparr> w req) = Some 404)"
proof (intro conjI allI impI ballI)
  fix r assume f: "findRoute table req = Some r"
  from assms have m: "set table = set routes"
    unfolding orderedByPrefixLength_def by (auto dest: mset_eq_setD)
  from f obtain pre post where t: "table = pre @ r # post" "Match r req" "\<forall>x\<in>set pre. \<not> Match x req"
    unfolding findRoute_Some by blast
  from t m show "r \<in> set routes" by auto
  from t show "Match r req" by simp
  from t show "\<exists>pre post. table = pre @ r # post \<and> (\<forall>x\<in>set pre. \<not> Match x req)" by blast
  fix r' assume "r' \<in> set routes" "Match r' req"
  then show "length (PathPrefix (config r')) \<le> length (PathPrefix (config r))"
    using findRoute_longest[OF assms f] by blast
next
  fix r1 r2
  assume r1: "r1 \<in> set routes" and r2: "r2 \<in> set routes"
    and h: "HasPrefix (PathPrefix (config r2)) (PathPrefix (config r1)) \<and>
            PathPrefix (config r1) \<noteq> PathPrefix (config r2) \<and>
            HasPrefix (Path (URL req)) (PathPrefix (config r2))"
  from assms have m: "set table = set routes"
    unfolding orderedByPrefixLength_def by (auto dest: mset_eq_setD)
  from h have m2: "Match r2 req" by (simp add: Match_def)
  with r2 m have "findRoute table req \<noteq> None" unfolding findRoute_None by blast
  then obtain r where f: "findRoute table req = Some r" by blast
  have le: "length (PathPrefix (config r2)) \<le> length (PathPrefix (config r))"
    using findRoute_longest[OF assms f r2 m2] .
  have lt: "length (PathPrefix (config r1)) < length (PathPrefix (config r2))"
  proof -
    from h have "length (PathPrefix (config r1)) \<le> length (PathPrefix (config r2))"
      by (simp add: HasPrefix_length)
    moreover have "length (PathPrefix (config r1)) \<noteq> length (PathPrefix (config r2))"
    proof
      assume e: "length (PathPrefix (config r1)) = length (PathPrefix (config r2))"
      from h have "take (length (PathPrefix (config r1))) (PathPrefix (config r2)) = PathPrefix (config r1)"
        by (simp add: HasPrefix_def)
      with e h show False by simp
    qed
    ultimately show ?thesis by simp
  qed
  from f have mr: "Match r req" unfolding findRoute_Some by blast
  from f m have rin: "r \<in> set routes" unfolding findRoute_Some by auto
  have ne: "PathPrefix (config r) \<noteq> PathPrefix (config r1)"
    using le lt by auto
  have last: "(\<forall>r'\<in>set routes. Match r' req \<longrightarrow>
                 length (PathPrefix (config r')) \<le> length (PathPrefix (config r2)))
              \<longrightarrow> PathPrefix (config r) = PathPrefix (config r2)"
  proof
    assume "\<forall>r'\<in>set routes. Match r' req \<longrightarrow> length (PathPrefix (config r')) \<le> length (PathPrefix (config r2))"
    with rin mr le have "length (PathPrefix (config r)) = length (PathPrefix (config r2))" by force
    with mr m2 show "PathPrefix (config r) = PathPrefix (config r2)"
      unfolding Match_def by (rule same_length_prefix)
  qed
  from f le ne last
  show "\<exists>r. findRoute table req = Some r \<and>
            length (PathPrefix (config r2)) \<le> length (PathPrefix (config r)) \<and>
            PathPrefix (config r) \<noteq> PathPrefix (config r1) \<and>
            ((\<forall>r'\<in>set routes. Match r' req \<longrightarrow>
                length (PathPrefix (config r')) \<le> length (PathPrefix (config r2)))
             \<longrightarrow> PathPrefix (config r) = PathPrefix (config r2))"
    by blast
next
  assume h: "(\<forall>r\<in>set routes. \<not> Match r req) \<and> cwStatus w = None"
  from assms have m: "set table = set routes"
    unfolding orderedByPrefixLength_def by (auto dest: mset_eq_setD)
  with h have "findRoute table req = None" unfolding findRoute_None by simp
  with h show "cwStatus (ServeHTTP parse env fw base \<lparr>p_routes = table\<rparr> w req) = Some 404"
    by (simp add: ServeHTTP_def http_Error_status)
qed

lemmas ex_defs = exampleRoute_def routeConfig_def noHeaderRules_def httpURL_def requestFor_def
  plainFramework_def newWriter_def

theorem longest_prefix_match_witness:
  "orderedByPrefixLength
     [exampleRoute ''short'' ''/api'' ''u1'', exampleRoute ''long'' ''/api/v2'' ''u2'']
     (sortRoutesByPrefixLength
        [exampleRoute ''short'' ''/api'' ''u1'', exampleRoute ''long'' ''/api/v2'' ''u2''])
   \<and> findRoute
       (sortRoutesByPrefixLength
          [exampleRoute ''short'' ''/api'' ''u1'', exampleRoute ''long'' ''/api/v2'' ''u2''])
       (requestFor ''/api/v2/test'' []) = Some (exampleRoute ''long'' ''/api/v2'' ''u2'')
   \<and> cwStatus (ServeHTTP (\<lambda>s. None) Map.empty plainFramework (\<lambda>rq. Inl ConnectFailed)
        \<lparr>p_routes = sortRoutesByPrefixLength
           [exampleRoute ''short'' ''/api'' ''u1'', exampleRoute ''long'' ''/api/v2'' ''u2'']\<rparr>
        newWriter (requestFor ''/other'' [])) = Some 404"
proof -
  let ?rs = "[exampleRoute ''short'' ''/api'' ''u1'', exampleRoute ''long'' ''/api/v2'' ''u2'']"
  have o: "orderedByPrefixLength ?rs (sortRoutesByPrefixLength ?rs)"
    by (simp add: orderedByPrefixLength_def sortRoutesByPrefixLength_def lessRoute_def ex_defs)
  have a: "\<forall>r\<in>set ?rs. \<not> Match r (requestFor ''/other'' [])"
    by (simp add: Match_def HasPrefix_def ex_defs)
  have b: "cwStatus newWriter = None"
    by (simp add: newWriter_def)
  have c: "findRoute (sortRoutesByPrefixLength ?rs) (requestFor ''/api/v2/test'' [])
           = Some (exampleRoute ''long'' ''/api/v2'' ''u2'')"
    by (simp add: sortRoutesByPrefixLength_def lessRoute_def Match_def HasPrefix_def ex_defs)
  from longest_prefix_match[OF o, of "requestFor ''/other'' []" newWriter "\<lambda>s. None" Map.empty
      plainFramework "\<lambda>rq. Inl ConnectFailed"] a b
  have "cwStatus (ServeHTTP (\<lambda>s. None) Map.empty plainFramework (\<lambda>rq. Inl ConnectFailed)
        \<lparr>p_routes = sortRoutesByPrefixLength ?rs\<rparr> newWriter (requestFor ''/other'' [])) = Some 404"
    by blast
  with o c show ?thesis by blast
qed

text \<open>
  The claim as stated fails with three nested prefixes: \<^verbatim>\<open>/a\<close> is strictly a prefix of
  \<^verbatim>\<open>/a/b\<close> and the path \<^verbatim>\<open>/a/b/c/d\<close> starts with \<^verbatim>\<open>/a/b\<close>, yet the request is served by the
  route of \<^verbatim>\<open>/a/b/c\<close>.
\<close>

theorem longest_prefix_counterexample:
  "HasPrefix ''/a/b'' ''/a'' \<and> ''/a'' \<noteq> ''/a/b'' \<and> HasPrefix ''/a/b/c/d'' ''/a/b''
   \<and> findRoute
       (sortRoutesByPrefixLength
          [exampleRoute ''one'' ''/a'' ''u1'', exampleRoute ''two'' ''/a/b'' ''u2'',
           exampleRoute ''three'' ''/a/b/c'' ''u3''])
       (requestFor ''/a/b/c/d'' []) = Some (exampleRoute ''three'' ''/a/b/c'' ''u3'')
   \<and> exampleRoute ''three'' ''/a/b/c'' ''u3'' \<noteq> exampleRoute ''two'' ''/a/b'' ''u2''"
  by (simp add: sortRoutesByPrefixLength_def lessRoute_def Match_def HasPrefix_def ex_defs)

section \<open>Properties of the director\<close>

lemmas hdr_defs = Header_Set_def Header_Add_def Header_Del_def Header_Get_def
  CanonicalMIMEHeaderKey_def validHeaderFieldByte_def isUpperAZ_def isLowerAZ_def
  toUpperByte_def toLowerByte_def upperAZ_def lowerAZ_def Let_def
lemmas str_defs = HasPrefix_def HasSuffix_def TrimPrefix_def TrimSuffix_def Contains_def ToLower_def
  matchesPattern_def

text \<open>With no upstream path prefix the director leaves the path as it is.\<close>

lemma director_path_unchanged:
  "UpstreamPathPrefix (config r) = [] \<Longrightarrow> Path (URL (director env r req)) = Path (URL req)"
  by (simp add: director_def Let_def)

text \<open>
  Claim C9 says that the rewritten upstream path never begins with a double slash. The
  director removes one leading slash, once. For the route with prefix \<^verbatim>\<open>/api\<close> and upstream
  path prefix \<^verbatim>\<open>/\<close>, the matching request path \<^verbatim>\<open>/api//x\<close> becomes \<^verbatim>\<open>///x\<close> and leaves
  the director as \<^verbatim>\<open>//x\<close>.
\<close>

theorem director_double_slash:
  "Match (exampleRoute ''api'' ''/api'' ''u''\<lparr>config := (routeConfig ''api'' ''/api'' ''http://u'')\<lparr>UpstreamPathPrefix := ''/''\<rparr>\<rparr>)
         (requestFor ''/api//x'' [])
   \<and> Path (URL (director Map.empty
        (exampleRoute ''api'' ''/api'' ''u''\<lparr>config := (routeConfig ''api'' ''/api'' ''http://u'')\<lparr>UpstreamPathPrefix := ''/''\<rparr>\<rparr>)
        (requestFor ''/api//x'' []))) = ''//x''"
  by code_simp

lemma canon_Connection: "CanonicalMIMEHeaderKey ''Connection'' = ''Connection''"
  by code_simp

lemma map_of_Del_None: "map_of h k = None \<Longrightarrow> map_of (Header_Del x h) k = None"
  by (simp add: Header_Del_def delete_conv')

lemma map_of_Del_same: "map_of (Header_Del ''Connection'' h) ''Connection'' = None"
  by (simp add: Header_Del_def delete_conv' canon_Connection)

text \<open>
  \<^verbatim>\<open>removeHopByHopHeaders\<close> deletes \<^verbatim>\<open>Connection\<close> before it reads it, so it reads the empty
  string and its second loop never runs: the function is the deletion of the eight fixed
  names and nothing more.
\<close>

lemma removeHopByHopHeaders_fixed_only:
  "removeHopByHopHeaders header = fold (\<lambda>h hd. Header_Del h hd) hopByHopHeaders header"
proof -
  have "map_of (fold (\<lambda>h hd. Header_Del h hd) hopByHopHeaders header) ''Connection'' = None"
    unfolding hopByHopHeaders_def fold_simps id_apply comp_apply
    by (intro map_of_Del_None map_of_Del_same)
  then have "Header_Get ''Connection'' (fold (\<lambda>h hd. Header_Del h hd) hopByHopHeaders header) = []"
    by (simp add: Header_Get_def canon_Connection)
  then show ?thesis by (simp add: removeHopByHopHeaders_def Let_def)
qed

text \<open>
  Claim C3 says that every header named in the value of \<^verbatim>\<open>Connection\<close> is removed before
  the request is forwarded. For a request with \<^verbatim>\<open>Connection: X-Foo\<close> and \<^verbatim>\<open>X-Foo: 1\<close>, the
  function removes \<^verbatim>\<open>Connection\<close> and keeps \<^verbatim>\<open>X-Foo\<close>, and so does the director of a
  route without header rules.
\<close>

theorem connection_listed_header_kept:
  "removeHopByHopHeaders [(''Connection'', [''X-Foo'']), (''X-Foo'', [''1'']), (''Accept'', [''*/*''])]
     = [(''X-Foo'', [''1'']), (''Accept'', [''*/*''])]
   \<and> Header (director Map.empty (exampleRoute ''api'' ''/api'' ''u'')
        (requestFor ''/api/x'' [(''Connection'', [''X-Foo'']), (''X-Foo'', [''1'']), (''Accept'', [''*/*''])]))
     = [(''X-Foo'', [''1'']), (''Accept'', [''*/*''])]"
  by code_simp

section \<open>Properties of the request pipeline\<close>

text \<open>
  Claim C4 says that a round trip that fails with a timeout is answered with 504. The
  reverse proxy of a route has no error handler, and nothing reads the \<^verbatim>\<open>Timeout\<close> of a
  route: whichever timeout the transport reports (dial, TLS handshake, response header,
  whole request), the client receives 502.
\<close>

theorem timeout_answered_502:
  "cwStatus (ServeHTTP (\<lambda>s. None) Map.empty plainFramework (\<lambda>rq. Inl DialTimeout)
      \<lparr>p_routes = [exampleRoute ''api'' ''/api'' ''u'']\<rparr> newWriter (requestFor ''/api/x'' [])) = Some 502
   \<and> cwStatus (ServeHTTP (\<lambda>s. None) Map.empty plainFramework (\<lambda>rq. Inl TLSHandshakeTimeout)
      \<lparr>p_routes = [exampleRoute ''api'' ''/api'' ''u'']\<rparr> newWriter (requestFor ''/api/x'' [])) = Some 502
   \<and> cwStatus (ServeHTTP (\<lambda>s. None) Map.empty plainFramework (\<lambda>rq. Inl ResponseHeaderTimeout)
      \<lparr>p_routes = [exampleRoute ''api'' ''/api'' ''u'']\<rparr> newWriter (requestFor ''/api/x'' [])) = Some 502
   \<and> cwStatus (ServeHTTP (\<lambda>s. None) Map.empty plainFramework (\<lambda>rq. Inl RequestTimeout)
      \<lparr>p_routes = [exampleRoute ''api'' ''/api'' ''u'']\<rparr> newWriter (requestFor ''/api/x'' [])) = Some 502"
  by code_simp

text \<open>The same for every proxy, matched route and error of the transport.\<close>

lemma transport_error_502:
  "findRoute (p_routes p) r = Some route \<Longrightarrow> cwStatus w = None \<Longrightarrow>
   cwStatus (ServeHTTP parse env fw (\<lambda>rq. Inl e) p w r) = Some 502"
  by (simp add: ServeHTTP_def reverseProxy_ServeHTTP_def RoundTrip_def sc_WriteHeader_def
        rw_WriteHeader_def applyHeaderManipulations_def cw_WriteHeader_def isRedirect_def Let_def)

text \<open>
  Claim C2 says that the outgoing header transform is applied to every proxied response,
  whether or not the route rewrites redirects. Only the redirect rewriting writer applies
  it, and \<^verbatim>\<open>ServeHTTP\<close> installs that writer on routes with \<^verbatim>\<open>RewriteRedirects\<close> only. For a
  route that strips \<^verbatim>\<open>Server\<close> from responses and an upstream response with
  \<^verbatim>\<open>Server: nginx\<close>: without \<^verbatim>\<open>RewriteRedirects\<close> the client receives the \<^verbatim>\<open>Server\<close> header,
  with it the header is gone.
\<close>

theorem outgoing_transform_skipped:
  "cwSent (ServeHTTP (\<lambda>s. None) Map.empty plainFramework
      (\<lambda>rq. Inr \<lparr>StatusCode = 200, RespHeader = [(''Server'', [''nginx'']), (''Content-Type'', [''text/plain''])],
                  Body = [''ok'']\<rparr>)
      \<lparr>p_routes = [\<lparr>config = (routeConfig ''api'' ''/api'' ''http://u'')
                        \<lparr>Headers := noHeaderRules\<lparr>StripOutgoing := [''Server'']\<rparr>\<rparr>,
                     upstream = httpURL ''http'' ''u'' []\<rparr>]\<rparr>
      newWriter (requestFor ''/api/x'' []))
     = [(''Server'', [''nginx'']), (''Content-Type'', [''text/plain''])]
   \<and> cwSent (ServeHTTP (\<lambda>s. None) Map.empty plainFramework
      (\<lambda>rq. Inr \<lparr>StatusCode = 200, RespHeader = [(''Server'', [''nginx'']), (''Content-Type'', [''text/plain''])],
                  Body = [''ok'']\<rparr>)
      \<lparr>p_routes = [\<lparr>config = (routeConfig ''api'' ''/api'' ''http://u'')
                        \<lparr>Headers := noHeaderRules\<lparr>StripOutgoing := [''Server'']\<rparr>,
                         RewriteRedirects := True\<rparr>,
                     upstream = httpURL ''http'' ''u'' []\<rparr>]\<rparr>
      newWriter (requestFor ''/api/x'' []))
     = [(''Content-Type'', [''text/plain''])]"
  by code_simp

text \<open>
  On every route without \<^verbatim>\<open>RewriteRedirects\<close> the headers sent to the client are the
  headers the reverse proxy copied from the response; no rule of the route is looked at.
\<close>

lemma plain_route_headers_untouched:
  assumes "findRoute (p_routes p) r = Some route" "\<not> RewriteRedirects (config route)"
    "cwStatus w = None" "base (stripBeforeSend route (director env route r\<lparr>Header := editRequest fw (Header (director env route r))\<rparr>)) = Inr res"
  shows "cwSent (ServeHTTP parse env fw base p w r)
         = fold (\<lambda>(k, vv) hd. fold (\<lambda>v hd'. Header_Add k v hd') vv hd) (editResponse fw (RespHeader res)) (cwHeader w)"
proof -
  have a: "cwSent (W_client (sc_ResponseWriter (fold (\<lambda>chunk w. sc_Write parse env chunk w) cs sw)))
           = cwSent (W_client (sc_ResponseWriter sw))"
    if "sc_wroteHeader sw" "\<exists>c. sc_ResponseWriter sw = Plain c \<and> cwStatus c \<noteq> None" for cs sw
    using that
  proof (induction cs arbitrary: sw)
    case Nil
    then show ?case by simp
  next
    case (Cons c cs)
    then obtain cw where cw: "sc_ResponseWriter sw = Plain cw" "cwStatus cw \<noteq> None" by blast
    let ?sw = "sc_Write parse env c sw"
    have 1: "sc_wroteHeader ?sw" using Cons.prems by (simp add: sc_Write_def)
    have 2: "sc_ResponseWriter ?sw = Plain (cw\<lparr>cwBody := cwBody cw @ c\<rparr>)"
      using Cons.prems cw by (auto simp: sc_Write_def cw_Write_def)
    have "cwSent (W_client (sc_ResponseWriter (fold (\<lambda>chunk w. sc_Write parse env chunk w) cs ?sw)))
          = cwSent (W_client (sc_ResponseWriter ?sw))"
      by (rule Cons.IH[OF 1]) (use 2 cw in simp)
    with 2 cw show ?case by simp
  qed
  show ?thesis
    using assms
    by (simp add: ServeHTTP_def reverseProxy_ServeHTTP_def RoundTrip_def Let_def a
          sc_WriteHeader_def cw_WriteHeader_def)
qed

section \<open>Properties of the redirect rewriter\<close>

lemma HasPrefix_slash: "HasPrefix s ''/'' \<longleftrightarrow> (\<exists>t. s = CHR ''/'' # t)"
  by (cases s) (auto simp: HasPrefix_def)

lemma HasSuffix_slash: "HasSuffix s ''/'' \<longleftrightarrow> (\<exists>t. s = t @ ''/'')"
proof (cases s rule: rev_cases)
  case Nil
  then show ?thesis by (simp add: HasSuffix_def)
next
  case (snoc t c)
  then show ?thesis by (auto simp: HasSuffix_def)
qed

lemma join_one_slash:
  "(if HasSuffix B ''/'' \<and> HasPrefix (if p \<noteq> [] \<and> \<not> HasPrefix p ''/'' then ''/'' @ p else p) ''/''
      then B @ drop 1 (if p \<noteq> [] \<and> \<not> HasPrefix p ''/'' then ''/'' @ p else p)
    else if \<not> HasSuffix B ''/'' \<and> \<not> HasPrefix (if p \<noteq> [] \<and> \<not> HasPrefix p ''/'' then ''/'' @ p else p) ''/''
      then B @ ''/'' @ (if p \<noteq> [] \<and> \<not> HasPrefix p ''/'' then ''/'' @ p else p)
    else B @ (if p \<noteq> [] \<and> \<not> HasPrefix p ''/'' then ''/'' @ p else p))
   = chopSlashEnd B @ ''/'' @ chopSlashFront p"
proof (cases "HasSuffix B ''/''")
  case True
  then obtain t where B: "B = t @ ''/''" unfolding HasSuffix_slash by blast
  show ?thesis
  proof (cases "HasPrefix p ''/''")
    case True
    then obtain q where "p = CHR ''/'' # q" unfolding HasPrefix_slash by blast
    then show ?thesis using B by (simp add: chopSlashEnd_def chopSlashFront_def HasSuffix_def HasPrefix_def)
  next
    case False
    then show ?thesis using B
      by (cases p) (auto simp: chopSlashEnd_def chopSlashFront_def HasSuffix_def HasPrefix_def)
  qed
next
  case False
  show ?thesis
  proof (cases "HasPrefix p ''/''")
    case True
    then obtain q where "p = CHR ''/'' # q" unfolding HasPrefix_slash by blast
    then show ?thesis using False by (simp add: chopSlashEnd_def chopSlashFront_def HasPrefix_def)
  next
    case F2: False
    then show ?thesis using False
      by (cases p) (auto simp: chopSlashEnd_def chopSlashFront_def HasPrefix_def)
  qed
qed

lemma buildProxyURL_closed:
  "buildProxyURL parse scheme host route (Path lu) (RawQuery lu) (Fragment lu)
   = onProxyURL parse scheme host route lu"
proof -
  define p where "p = strippedPath route lu"
  define p' where "p' = (if p \<noteq> [] \<and> \<not> HasPrefix p ''/'' then ''/'' @ p else p)"
  define J where "J = (\<lambda>B. if HasSuffix B ''/'' \<and> HasPrefix p' ''/'' then B @ drop 1 p'
                          else if \<not> HasSuffix B ''/'' \<and> \<not> HasPrefix p' ''/'' then B @ ''/'' @ p'
                          else B @ p')"
  define qf where "qf = queryAndFragment lu"
  have J: "J B = chopSlashEnd B @ ''/'' @ chopSlashFront p" for B
    unfolding J_def p'_def by (rule join_one_slash)
  have tail: "(let proxyURL = X;
                   proxyURL = (if RawQuery lu \<noteq> [] then proxyURL @ ''?'' @ RawQuery lu else proxyURL);
                   proxyURL = (if Fragment lu \<noteq> [] then proxyURL @ ''#'' @ Fragment lu else proxyURL)
               in proxyURL) = X @ qf" for X
    by (simp add: qf_def queryAndFragment_def Let_def)
  have core: "buildProxyURL parse scheme host route (Path lu) (RawQuery lu) (Fragment lu)
        = J (((if s0 = [] then ''https'' else s0) @ ''://'' @ h0) @ PathPrefix route) @ qf"
    if "(if RedirectBaseURL route \<noteq> []
         then (case parse (RedirectBaseURL route) of
                 Some baseURL \<Rightarrow> (Scheme baseURL, Host baseURL)
               | None \<Rightarrow> (scheme, host))
         else (scheme, host)) = (s0, h0)" for s0 h0
    unfolding buildProxyURL_def that
    unfolding tail
    unfolding Let_def prod.case J_def p'_def p_def strippedPath_def
    by (rule refl)
  show ?thesis
  proof (cases "RedirectBaseURL route = []")
    case True
    have "buildProxyURL parse scheme host route (Path lu) (RawQuery lu) (Fragment lu)
        = J (((if scheme = [] then ''https'' else scheme) @ ''://'' @ host) @ PathPrefix route) @ qf"
      by (rule core) (simp add: True)
    then show ?thesis
      by (simp add: J onProxyURL_def redirectBase_def True p_def qf_def)
  next
    case False
    show ?thesis
    proof (cases "parse (RedirectBaseURL route)")
      case None
      have "buildProxyURL parse scheme host route (Path lu) (RawQuery lu) (Fragment lu)
        = J (((if scheme = [] then ''https'' else scheme) @ ''://'' @ host) @ PathPrefix route) @ qf"
        by (rule core) (simp add: False None)
      then show ?thesis
        by (simp add: J onProxyURL_def redirectBase_def False None p_def qf_def)
    next
      case (Some b)
      have "buildProxyURL parse scheme host route (Path lu) (RawQuery lu) (Fragment lu)
        = J (((if Scheme b = [] then ''https'' else Scheme b) @ ''://'' @ Host b) @ PathPrefix route) @ qf"
        by (rule core) (simp add: False Some)
      then show ?thesis
        by (simp add: J onProxyURL_def redirectBase_def False Some p_def qf_def)
    qed
  qed
qed

lemma onProxyURL_prefix:
  assumes "redirectBase parse scheme host route = (bs, bh)"
  shows "\<exists>rest. onProxyURL parse scheme host route lu = bs @ ''://'' @ bh @ PathPrefix route @ rest"
proof -
  define B where "B = bs @ ''://'' @ bh @ PathPrefix route"
  have "\<exists>x. chopSlashEnd B @ ''/'' = B @ x"
  proof (cases "HasSuffix B ''/''")
    case True
    then obtain t where t: "B = t @ ''/''" unfolding HasSuffix_slash by blast
    have "chopSlashEnd B @ ''/'' = B @ []"
      unfolding chopSlashEnd_def using True by (simp add: t)
    then show ?thesis by blast
  next
    case False
    then show ?thesis by (simp add: chopSlashEnd_def)
  qed
  then obtain x where x: "chopSlashEnd B @ ''/'' = B @ x" by blast
  have "onProxyURL parse scheme host route lu
        = (chopSlashEnd B @ ''/'') @ chopSlashFront (strippedPath route lu) @ queryAndFragment lu"
    by (simp add: onProxyURL_def assms B_def)
  also have "\<dots> = B @ (x @ chopSlashFront (strippedPath route lu) @ queryAndFragment lu)"
    unfolding x by simp
  finally have "onProxyURL parse scheme host route lu
        = bs @ ''://'' @ bh @ PathPrefix route @ (x @ chopSlashFront (strippedPath route lu) @ queryAndFragment lu)"
    by (simp add: B_def)
  then show ?thesis by blast
qed

lemma knownUpstream_Some:
  "knownUpstream parse lu routes = Some r \<Longrightarrow>
   r \<in> set routes \<and> (\<exists>ru. parse (Upstream r) = Some ru \<and> Host lu = Host ru)"
  by (induction routes) (auto split: option.splits if_splits)

lemma knownUpstream_None:
  "knownUpstream parse lu routes = None \<longleftrightarrow>
   (\<forall>rt\<in>set routes. \<forall>ru. parse (Upstream rt) = Some ru \<longrightarrow> Host lu \<noteq> Host ru)"
  by (induction routes) (auto split: option.splits if_splits)

text \<open>
  Claim C6, as amended. Let the location parse as an absolute URL and the upstream of the
  current route parse. If the host of the location is the host of the current route's
  upstream (internal), or else the host of the upstream of a route of the table
  (external_known), the location is rewritten for that route to: the base scheme,
  \<^verbatim>\<open>://\<close>, the base host, the path prefix of the route, one slash, and the path of the
  location without the route's upstream path prefix, followed by \<^verbatim>\<open>?\<close> and the query and
  \<^verbatim>\<open>#\<close> and the fragment when they are not empty. The one slash stands for a slash at the
  end of the prefix and a slash at the head of the path when they are there, and is put in
  when they are not, also in front of an empty path. The rewritten location begins with
  base scheme, base host and the path prefix of the route.
\<close>

theorem rewritten_location_on_proxy:
  assumes "parse location = Some lu" "IsAbs lu" "parse (Upstream currentRoute) = Some cu"
    and "Host lu = Host cu \<or> (\<exists>rt\<in>set routes. \<exists>ru. parse (Upstream rt) = Some ru \<and> Host lu = Host ru)"
  shows "\<exists>route kind bs bh rest.
     (if Host lu = Host cu then route = currentRoute \<and> kind = ''internal''
      else route \<in> set routes \<and> (\<exists>ru. parse (Upstream route) = Some ru \<and> Host lu = Host ru)
           \<and> kind = ''external_known'')
     \<and> redirectBase parse incomingScheme incomingHost route = (bs, bh)
     \<and> RewriteRedirect parse location incomingHost incomingScheme routes currentRoute
         = (onProxyURL parse incomingScheme incomingHost route lu, True, kind)
     \<and> onProxyURL parse incomingScheme incomingHost route lu
         = bs @ ''://'' @ bh @ PathPrefix route @ rest"
proof (cases "Host lu = Host cu")
  case True
  obtain bs bh where b: "redirectBase parse incomingScheme incomingHost currentRoute = (bs, bh)"
    by (cases "redirectBase parse incomingScheme incomingHost currentRoute")
  from onProxyURL_prefix[OF b, of lu] obtain rest where
    r: "onProxyURL parse incomingScheme incomingHost currentRoute lu
        = bs @ ''://'' @ bh @ PathPrefix currentRoute @ rest" by blast
  have "RewriteRedirect parse location incomingHost incomingScheme routes currentRoute
        = (onProxyURL parse incomingScheme incomingHost currentRoute lu, True, ''internal'')"
    using assms True by (simp add: RewriteRedirect_def buildProxyURL_closed)
  with True b r show ?thesis by auto
next
  case False
  with assms(4) have "knownUpstream parse lu routes \<noteq> None"
    unfolding knownUpstream_None by blast
  then obtain route where k: "knownUpstream parse lu routes = Some route" by blast
  note ks = knownUpstream_Some[OF k]
  obtain bs bh where b: "redirectBase parse incomingScheme incomingHost route = (bs, bh)"
    by (cases "redirectBase parse incomingScheme incomingHost route")
  from onProxyURL_prefix[OF b, of lu] obtain rest where
    r: "onProxyURL parse incomingScheme incomingHost route lu
        = bs @ ''://'' @ bh @ PathPrefix route @ rest" by blast
  have "RewriteRedirect parse location incomingHost incomingScheme routes currentRoute
        = (onProxyURL parse incomingScheme incomingHost route lu, True, ''external_known'')"
    using assms False k by (simp add: RewriteRedirect_def buildProxyURL_closed)
  with False b r ks show ?thesis by auto
qed

theorem rewritten_location_on_proxy_witness:
  "exampleParse ''https://up.example.com/api/v1/users?page=2#top''
     = Some \<lparr>Scheme = ''https'', Host = ''up.example.com'', Path = ''/api/v1/users'',
             RawQuery = ''page=2'', Fragment = ''top''\<rparr>
   \<and> exampleParse (Upstream ((routeConfig ''api'' ''/app'' ''https://up.example.com'')\<lparr>UpstreamPathPrefix := ''/api/v1''\<rparr>))
     = Some (httpURL ''https'' ''up.example.com'' [])
   \<and> RewriteRedirect exampleParse ''https://up.example.com/api/v1/users?page=2#top''
        ''proxy.example.com'' ''https'' []
        ((routeConfig ''api'' ''/app'' ''https://up.example.com'')\<lparr>UpstreamPathPrefix := ''/api/v1''\<rparr>)
     = (''https://proxy.example.com/app/users?page=2#top'', True, ''internal'')"
proof -
  let ?loc = "''https://up.example.com/api/v1/users?page=2#top''"
  let ?lu = "\<lparr>Scheme = ''https'', Host = ''up.example.com'', Path = ''/api/v1/users'',
             RawQuery = ''page=2'', Fragment = ''top''\<rparr>"
  let ?cur = "(routeConfig ''api'' ''/app'' ''https://up.example.com'')\<lparr>UpstreamPathPrefix := ''/api/v1''\<rparr>"
  let ?cu = "httpURL ''https'' ''up.example.com'' []"
  have p1: "exampleParse ?loc = Some ?lu" by code_simp
  have p2: "IsAbs ?lu" by code_simp
  have p3: "exampleParse (Upstream ?cur) = Some ?cu" by code_simp
  have h: "Host ?lu = Host ?cu" by code_simp
  then have p4: "Host ?lu = Host ?cu \<or> (\<exists>rt\<in>set []. \<exists>ru. exampleParse (Upstream rt) = Some ru \<and> Host ?lu = Host ru)"
    by blast
  have v: "onProxyURL exampleParse ''https'' ''proxy.example.com'' ?cur ?lu
           = ''https://proxy.example.com/app/users?page=2#top''"
    by code_simp
  from rewritten_location_on_proxy[OF p1 p2 p3 p4, of "''https''" "''proxy.example.com''"] h
  have "RewriteRedirect exampleParse ?loc ''proxy.example.com'' ''https'' [] ?cur
        = (onProxyURL exampleParse ''https'' ''proxy.example.com'' ?cur ?lu, True, ''internal'')"
    by auto
  with v p1 p3 show ?thesis by simp
qed

text \<open>
  The claim as stated builds the URL from the path prefix and the stripped path alone. For
  the location \<^verbatim>\<open>https://up.example.com\<close>, whose path is empty, and the route \<^verbatim>\<open>/api\<close> to that
  host, that is \<^verbatim>\<open>https://proxy.example.com/api\<close>; the code returns
  \<^verbatim>\<open>https://proxy.example.com/api/\<close>.
\<close>

theorem rewritten_location_counterexample:
  "exampleParse ''https://up.example.com'' = Some (httpURL ''https'' ''up.example.com'' [])
   \<and> RewriteRedirect exampleParse ''https://up.example.com'' ''proxy.example.com'' ''https''
        [routeConfig ''api'' ''/api'' ''https://up.example.com'']
        (routeConfig ''api'' ''/api'' ''https://up.example.com'')
      = (''https://proxy.example.com/api/'', True, ''internal'')
   \<and> claimedProxyURL exampleParse ''https'' ''proxy.example.com''
        (routeConfig ''api'' ''/api'' ''https://up.example.com'') (httpURL ''https'' ''up.example.com'' [])
      = ''https://proxy.example.com/api''"
  by code_simp

text \<open>
  Claim C10. The rewriter compares the host of the parsed location, port included, with
  the host of the parsed upstream as strings. A location without scheme is relative and
  returned as it is, whatever its host. An absolute location is internal exactly when its
  host equals the host of the current route's upstream, external_known exactly when it
  does not but equals the host of the upstream of a route of the table, and otherwise it
  is external_unknown and returned as it is: so \<^verbatim>\<open>http://host:8080/p\<close> against the upstream
  \<^verbatim>\<open>https://host\<close>, and \<^verbatim>\<open>//host/p\<close> is relative.
\<close>

theorem redirect_classified_by_host:
  "(parse location = Some lu \<and> \<not> IsAbs lu \<longrightarrow>
      RewriteRedirect parse location incomingHost incomingScheme routes currentRoute
        = (location, False, ''relative'')) \<and>
   (parse location = Some lu \<and> IsAbs lu \<and> parse (Upstream currentRoute) = Some cu \<longrightarrow>
      (snd (snd (RewriteRedirect parse location incomingHost incomingScheme routes currentRoute)) = ''internal''
         \<longleftrightarrow> Host lu = Host cu) \<and>
      (snd (snd (RewriteRedirect parse location incomingHost incomingScheme routes currentRoute)) = ''external_known''
         \<longleftrightarrow> Host lu \<noteq> Host cu
             \<and> (\<exists>rt\<in>set routes. \<exists>ru. parse (Upstream rt) = Some ru \<and> Host lu = Host ru)) \<and>
      (Host lu \<noteq> Host cu
         \<and> (\<forall>rt\<in>set routes. \<forall>ru. parse (Upstream rt) = Some ru \<longrightarrow> Host lu \<noteq> Host ru)
       \<longrightarrow> RewriteRedirect parse location incomingHost incomingScheme routes currentRoute
             = (location, False, ''external_unknown'')))"
proof (intro conjI impI)
  assume "parse location = Some lu \<and> \<not> IsAbs lu"
  then show "RewriteRedirect parse location incomingHost incomingScheme routes currentRoute
        = (location, False, ''relative'')"
    by (simp add: RewriteRedirect_def)
next
  assume h: "parse location = Some lu \<and> IsAbs lu \<and> parse (Upstream currentRoute) = Some cu"
  show "(snd (snd (RewriteRedirect parse location incomingHost incomingScheme routes currentRoute)) = ''internal'')
        = (Host lu = Host cu)"
    using h by (simp add: RewriteRedirect_def split: option.splits)
next
  assume h: "parse location = Some lu \<and> IsAbs lu \<and> parse (Upstream currentRoute) = Some cu"
  show "(snd (snd (RewriteRedirect parse location incomingHost incomingScheme routes currentRoute)) = ''external_known'')
        = (Host lu \<noteq> Host cu
             \<and> (\<exists>rt\<in>set routes. \<exists>ru. parse (Upstream rt) = Some ru \<and> Host lu = Host ru))"
  proof (cases "knownUpstream parse lu routes")
    case None
    then show ?thesis using h knownUpstream_None[of parse lu routes]
      by (auto simp: RewriteRedirect_def)
  next
    case (Some r)
    then have "\<exists>rt\<in>set routes. \<exists>ru. parse (Upstream rt) = Some ru \<and> Host lu = Host ru"
      using knownUpstream_Some by blast
    then show ?thesis using h Some by (simp add: RewriteRedirect_def)
  qed
next
  assume h: "parse location = Some lu \<and> IsAbs lu \<and> parse (Upstream currentRoute) = Some cu"
  assume "Host lu \<noteq> Host cu
         \<and> (\<forall>rt\<in>set routes. \<forall>ru. parse (Upstream rt) = Some ru \<longrightarrow> Host lu \<noteq> Host ru)"
  then have "Host lu \<noteq> Host cu" "knownUpstream parse lu routes = None"
    unfolding knownUpstream_None by blast+
  with h show "RewriteRedirect parse location incomingHost incomingScheme routes currentRoute
             = (location, False, ''external_unknown'')"
    by (simp add: RewriteRedirect_def)
qed

theorem redirect_classified_by_host_witness:
  "exampleParse ''http://host:8080/p'' = Some (httpURL ''http'' ''host:8080'' ''/p'')
   \<and> IsAbs (httpURL ''http'' ''host:8080'' ''/p'')
   \<and> exampleParse (Upstream (routeConfig ''known'' ''/known'' ''https://host'')) = Some (httpURL ''https'' ''host'' [])
   \<and> RewriteRedirect exampleParse ''http://host:8080/p'' ''proxy.example.com'' ''https''
        [routeConfig ''known'' ''/known'' ''https://host''] (routeConfig ''known'' ''/known'' ''https://host'')
      = (''http://host:8080/p'', False, ''external_unknown'')
   \<and> exampleParse ''//host/p'' = Some (httpURL [] ''host'' ''/p'')
   \<and> \<not> IsAbs (httpURL [] ''host'' ''/p'')
   \<and> RewriteRedirect exampleParse ''//host/p'' ''proxy.example.com'' ''https''
        [routeConfig ''known'' ''/known'' ''https://host''] (routeConfig ''known'' ''/known'' ''https://host'')
      = (''//host/p'', False, ''relative'')"
proof -
  let ?cur = "routeConfig ''known'' ''/known'' ''https://host''"
  have a1: "exampleParse ''http://host:8080/p'' = Some (httpURL ''http'' ''host:8080'' ''/p'')" by code_simp
  have a2: "IsAbs (httpURL ''http'' ''host:8080'' ''/p'')" by code_simp
  have a3: "exampleParse (Upstream ?cur) = Some (httpURL ''https'' ''host'' [])" by code_simp
  have a4: "Host (httpURL ''http'' ''host:8080'' ''/p'') \<noteq> Host (httpURL ''https'' ''host'' [])" by code_simp
  have a5: "\<forall>rt\<in>set [?cur]. \<forall>ru. exampleParse (Upstream rt) = Some ru
              \<longrightarrow> Host (httpURL ''http'' ''host:8080'' ''/p'') \<noteq> Host ru"
    using a3 a4 by simp
  have b1: "exampleParse ''//host/p'' = Some (httpURL [] ''host'' ''/p'')" by code_simp
  have b2: "\<not> IsAbs (httpURL [] ''host'' ''/p'')" by code_simp
  from redirect_classified_by_host[of exampleParse "''http://host:8080/p''" "httpURL ''http'' ''host:8080'' ''/p''"
      "''proxy.example.com''" "''https''" "[?cur]" ?cur "httpURL ''https'' ''host'' []"] a1 a2 a3 a4 a5
  have r1: "RewriteRedirect exampleParse ''http://host:8080/p'' ''proxy.example.com'' ''https'' [?cur] ?cur
      = (''http://host:8080/p'', False, ''external_unknown'')"
    by blast
  from redirect_classified_by_host[of exampleParse "''//host/p''" "httpURL [] ''host'' ''/p''"
      "''proxy.example.com''" "''https''" "[?cur]" ?cur] b1 b2
  have r2: "RewriteRedirect exampleParse ''//host/p'' ''proxy.example.com'' ''https'' [?cur] ?cur
      = (''//host/p'', False, ''relative'')"
    by blast
  from a1 a2 a3 r1 b1 b2 r2 show ?thesis by blast
qed

end
